theory Spec2Isabelle
  imports Main "HOL-Library.Word" "HOL-Library.Multiset"
begin

text \<open>
  The chunked summarization of congressional-reports-summaries: \<^verbatim>\<open>splitIntoChunks\<close> and the
  two request handlers that summarize a PDF chunk by chunk, caching every chunk summary and
  the assembled summary in MongoDB. One is the handler of the file kept as part_002 (it
  answers with one JSON body), the other the handler of pages/api/summarizePdf.js (it
  streams the chunk summaries as they are produced). The database, the download of the PDF
  and the completion service are outside the repository: they are an environment that
  says, for one request, what each of them does, and every call to them is recorded in a
  trace.
\<close>

section \<open>Text: JavaScript strings and the chunk splitter\<close>

text \<open>
  A JavaScript string is a sequence of UTF-16 code units. The regular expression
  \<^verbatim>\<open>/\s+/\<close> of \<^verbatim>\<open>splitIntoChunks\<close> has no \<^verbatim>\<open>u\<close> flag, so it works on code
  units; \<^verbatim>\<open>\s\<close> is the ECMAScript class WhiteSpace + LineTerminator, all of whose members
  are single code units.
\<close>

type_synonym jschar = "16 word"
type_synonym jsstring = "jschar list"

definition is_ws :: "jschar \<Rightarrow> bool" where
  "is_ws c \<longleftrightarrow>
     c = 0x09 \<or> c = 0x0A \<or> c = 0x0B \<or> c = 0x0C \<or> c = 0x0D \<or> c = 0x20 \<or>
     c = 0xA0 \<or> c = 0x1680 \<or> (0x2000 \<le> c \<and> c \<le> 0x200A) \<or>
     c = 0x2028 \<or> c = 0x2029 \<or> c = 0x202F \<or> c = 0x205F \<or> c = 0x3000 \<or>
     c = 0xFEFF"

text \<open>
  \<^verbatim>\<open>text.split( /\s+/ )\<close>. ECMAScript's split returns the one-element array holding the
  empty string for an empty subject (the pattern does not match the empty string); otherwise
  it cuts the subject at every match, and a match of \<^verbatim>\<open>\s+\<close> is a maximal run of white
  space. A run at the very start leaves an empty string in front, a run at the very end
  leaves one behind.
\<close>

function split_ws :: "jsstring \<Rightarrow> jsstring list" where
  "split_ws [] = [[]]"
| "split_ws (c # cs) =
     (if is_ws c then [] # split_ws (dropWhile is_ws cs)
      else (case split_ws cs of w # ws \<Rightarrow> (c # w) # ws | [] \<Rightarrow> [[c]]))"
  by pat_completeness auto
termination
  by (relation "measure length") (auto simp: le_imp_less_Suc length_dropWhile_le)

text \<open>\<^verbatim>\<open>Array.prototype.join\<close> on an array of strings.\<close>

fun js_join :: "jsstring \<Rightarrow> jsstring list \<Rightarrow> jsstring" where
  "js_join sep [] = []"
| "js_join sep [x] = x"
| "js_join sep (x # y # ys) = x @ sep @ js_join sep (y # ys)"

text \<open>\<^verbatim>\<open>Array.prototype.slice( b, e )\<close> for \<open>0 \<le> b \<le> e\<close>; the end is clamped to the length.\<close>

definition js_slice :: "'a list \<Rightarrow> nat \<Rightarrow> nat \<Rightarrow> 'a list" where
  "js_slice xs b e = take (e - b) (drop b xs)"

text \<open>
  The loop of \<^verbatim>\<open>splitIntoChunks\<close>:
  \<^verbatim>\<open>for ( let i = 0; i < words.length; i += maxWords ) {
      chunks.push( words.slice( i, i + maxWords ).join( " " ) ); }\<close>
  With \<open>maxWords = 0\<close> the counter never advances and the loop does not end, so the loop
  is a partial function: \<open>None\<close> is "does not return".
\<close>

partial_function (option) chunk_loop ::
  "jsstring list \<Rightarrow> nat \<Rightarrow> nat \<Rightarrow> jsstring list \<Rightarrow> jsstring list option" where
  "chunk_loop words maxWords i chunks =
     (if i < length words
      then chunk_loop words maxWords (i + maxWords)
             (chunks @ [js_join [0x20] (js_slice words i (i + maxWords))])
      else Some chunks)"

declare chunk_loop.simps [code]

definition splitIntoChunks :: "jsstring \<Rightarrow> nat \<Rightarrow> jsstring list option" where
  "splitIntoChunks text maxWords = chunk_loop (split_ws text) maxWords 0 []"

text \<open>
  The words of the specification, for comparison with the code: the number of
  whitespace-separated words of a string (its maximal runs of non-whitespace), whether a
  text consists of white space only, and the whitespace-normalised form of a text (every
  maximal run of white space replaced by one space).
\<close>

fun count_words :: "jsstring \<Rightarrow> nat" where
  "count_words [] = 0"
| "count_words [c] = (if is_ws c then 0 else 1)"
| "count_words (c # d # cs) =
     (if \<not> is_ws c \<and> is_ws d then 1 else 0) + count_words (d # cs)"

definition whitespace_only :: "jsstring \<Rightarrow> bool" where
  "whitespace_only text \<longleftrightarrow> list_all is_ws text"

fun collapse_ws :: "jsstring \<Rightarrow> jsstring" where
  "collapse_ws [] = []"
| "collapse_ws [c] = [if is_ws c then 0x20 else c]"
| "collapse_ws (c # d # cs) =
     (if is_ws c then (if is_ws d then collapse_ws (d # cs) else 0x20 # collapse_ws (d # cs))
      else c # collapse_ws (d # cs))"

section \<open>Values, requests, stores and the outside world\<close>

text \<open>
  The fields of the request body are JSON values. Numbers are the integer-valued ones
  (issue numbers); \<open>JObject\<close> stands for any object or array.
\<close>

datatype jsval = JUndefined | JNull | JBool bool | JNum int | JStr jsstring | JObject

fun truthy :: "jsval \<Rightarrow> bool" where
  "truthy JUndefined = False"
| "truthy JNull = False"
| "truthy (JBool b) = b"
| "truthy (JNum n) = (n \<noteq> 0)"
| "truthy (JStr s) = (s \<noteq> [])"
| "truthy JObject = True"

fun typeof :: "jsval \<Rightarrow> string" where
  "typeof JUndefined = ''undefined''"
| "typeof JNull = ''object''"
| "typeof (JBool b) = ''boolean''"
| "typeof (JNum n) = ''number''"
| "typeof (JStr s) = ''string''"
| "typeof JObject = ''object''"

text \<open>
  A \<^verbatim>\<open>summary\<close> field, and the \<^verbatim>\<open>content\<close> of a completion: a string, or \<open>None\<close> for
  \<^verbatim>\<open>null\<close> or a missing field. \<open>nonempty\<close> is the truthiness test the handlers apply to
  it (\<^verbatim>\<open>cachedChunk?.summary\<close>); \<open>text_of\<close> is what \<^verbatim>\<open>join\<close> makes of an element.
\<close>

type_synonym nullable = "jsstring option"

fun nonempty :: "nullable \<Rightarrow> jsstring option" where
  "nonempty None = None"
| "nonempty (Some s) = (if s = [] then None else Some s)"

fun text_of :: "nullable \<Rightarrow> jsstring" where
  "text_of None = []"
| "text_of (Some s) = s"

record request =
  req_method :: string
  req_pdfUrl :: jsval
  req_issueNumber :: jsval

text \<open>A record of the collection \<^verbatim>\<open>summaries\<close>, and an element of \<^verbatim>\<open>chunkSummaries\<close>.\<close>

record summary_doc =
  doc_pdfUrl :: jsval
  doc_summary :: nullable

record chunk_summary =
  index :: nat
  content :: nullable

datatype error = Error jsstring

fun message :: "error \<Rightarrow> jsstring" where
  "message (Error m) = m"

text \<open>
  What a handler sends: each constructor is one string the code passes to
  \<^verbatim>\<open>res.json\<close>, \<^verbatim>\<open>res.end\<close> or \<^verbatim>\<open>res.write\<close>, with \<^verbatim>\<open>JSON.stringify\<close> left symbolic.
\<close>

datatype piece =
    JsonError string
  | JsonSummary jsstring
  | StreamOpen nat
  | StreamChunk nat nullable
  | StreamSummaryKey
  | StreamSummary jsstring
  | StreamClose
  | StreamError jsstring

text \<open>Every interaction with the outside, in the order it happens.\<close>

datatype event =
    Connect
  | FindSummary jsval
  | Fetch jsval
  | Split
  | FindChunk jsval nat
  | Summarize nat jsstring
  | UpdateChunk jsval nat nullable
  | UpdateSummary jsval jsval jsstring
  | Write piece

record response =
  statusCode :: nat
  headers :: "(string \<times> string) list"
  ended :: bool

text \<open>
  The state a request runs in: the two collections \<^verbatim>\<open>summaries\<close> and
  \<^verbatim>\<open>chunkSummaries\<close> (durable, named as the handles the handlers hold), the module variable
  \<^verbatim>\<open>cachedDb\<close> of the streaming handler, and, for this request, the response object and
  the trace of events.
\<close>

record state =
  collection :: "jsval \<rightharpoonup> summary_doc"
  chunkCollection :: "jsval \<times> nat \<rightharpoonup> nullable"
  cachedDb :: bool
  res :: response
  trace :: "event list"

definition new_response :: response where
  "new_response = \<lparr>statusCode = 200, headers = [], ended = False\<rparr>"

definition next_request :: "state \<Rightarrow> state" where
  "next_request s = s\<lparr>res := new_response, trace := []\<rparr>"

text \<open>
  The outside world during one request: which database operations throw, what the download
  and text extraction of the PDF yield, and what the completion service answers for a
  chunk (it is not deterministic, so each request has its own).
\<close>

record env =
  connect_error :: "error option"
  findOne_summaries_error :: "error option"
  fetchPdfText :: "jsval \<Rightarrow> error + jsstring"
  findOne_chunk_error :: "nat \<Rightarrow> error option"
  chat_completion :: "jsstring \<Rightarrow> nat \<Rightarrow> error + nullable"
  updateOne_chunk_error :: "nat \<Rightarrow> error option"
  updateOne_summaries_error :: "error option"

section \<open>Computations that may throw\<close>

datatype 'a outcome = Ok 'a | Throw error | Hang

type_synonym 'a io = "state \<Rightarrow> 'a outcome \<times> state"

definition ret :: "'a \<Rightarrow> 'a io" where
  "ret x = (\<lambda>s. (Ok x, s))"

definition throw :: "error \<Rightarrow> 'a io" where
  "throw e = (\<lambda>s. (Throw e, s))"

definition bind :: "'a io \<Rightarrow> ('a \<Rightarrow> 'b io) \<Rightarrow> 'b io" where
  "bind m f = (\<lambda>s. case m s of
                      (Ok x, s') \<Rightarrow> f x s'
                    | (Throw e, s') \<Rightarrow> (Throw e, s')
                    | (Hang, s') \<Rightarrow> (Hang, s'))"

definition try_catch :: "'a io \<Rightarrow> (error \<Rightarrow> 'a io) \<Rightarrow> 'a io" where
  "try_catch m h = (\<lambda>s. case m s of
                           (Throw e, s') \<Rightarrow> h e s'
                         | r \<Rightarrow> r)"

definition log :: "event \<Rightarrow> unit io" where
  "log ev = (\<lambda>s. (Ok (), s\<lparr>trace := trace s @ [ev]\<rparr>))"

definition or_throw :: "error option \<Rightarrow> unit io" where
  "or_throw eo = (case eo of None \<Rightarrow> ret () | Some e \<Rightarrow> throw e)"

subsection \<open>The response object\<close>

fun written :: "event \<Rightarrow> piece option" where
  "written (Write p) = Some p"
| "written ev = None"

definition body :: "state \<Rightarrow> piece list" where
  "body s = List.map_filter written (trace s)"

definition headersSent :: "state \<Rightarrow> bool" where
  "headersSent s \<longleftrightarrow> body s \<noteq> [] \<or> ended (res s)"

definition setHeader :: "string \<Rightarrow> string \<Rightarrow> unit io" where
  "setHeader name v = (\<lambda>s. (Ok (), s\<lparr>res := (res s)\<lparr>headers := headers (res s) @ [(name, v)]\<rparr>\<rparr>))"

definition res_write :: "piece \<Rightarrow> unit io" where
  "res_write p = log (Write p)"

definition res_end :: "unit io" where
  "res_end = (\<lambda>s. (Ok (), s\<lparr>res := (res s)\<lparr>ended := True\<rparr>\<rparr>))"

text \<open>
  \<^verbatim>\<open>res.status( code ).json( payload )\<close>: the status, the body, the end of the response.
  (\<open>headers\<close> holds what the handlers set with \<^verbatim>\<open>res.setHeader\<close>, not what the framework
  adds on its own.)
\<close>

definition status_json :: "nat \<Rightarrow> piece \<Rightarrow> unit io" where
  "status_json code payload =
     bind (\<lambda>s. (Ok (), s\<lparr>res := (res s)\<lparr>statusCode := code\<rparr>\<rparr>)) (\<lambda>_.
     bind (res_write payload) (\<lambda>_.
     res_end))"

subsection \<open>The collaborators\<close>

text \<open>
  \<^verbatim>\<open>connectToDatabase\<close> of part_002 opens a connection on every call; that of
  summarizePdf.js returns the cached handle when there is one.
\<close>

definition connectToDatabase :: "env \<Rightarrow> unit io" where
  "connectToDatabase env = bind (log Connect) (\<lambda>_. or_throw (connect_error env))"

definition connectToDatabase_cached :: "env \<Rightarrow> unit io" where
  "connectToDatabase_cached env =
     (\<lambda>s. if cachedDb s then (Ok (), s)
          else bind (log Connect) (\<lambda>_.
               bind (or_throw (connect_error env)) (\<lambda>_.
               (\<lambda>s'. (Ok (), s'\<lparr>cachedDb := True\<rparr>)))) s)"

text \<open>\<^verbatim>\<open>collection.findOne( { issueNumber } )\<close>\<close>

definition findOne_summary :: "env \<Rightarrow> jsval \<Rightarrow> summary_doc option io" where
  "findOne_summary env issueNumber =
     bind (log (FindSummary issueNumber)) (\<lambda>_.
     bind (or_throw (findOne_summaries_error env)) (\<lambda>_.
     (\<lambda>s. (Ok (collection s issueNumber), s))))"

text \<open>\<^verbatim>\<open>collection.updateOne( { issueNumber }, { $set: { issueNumber, pdfUrl, summary } }, { upsert: true } )\<close>\<close>

definition updateOne_summary :: "env \<Rightarrow> jsval \<Rightarrow> jsval \<Rightarrow> jsstring \<Rightarrow> unit io" where
  "updateOne_summary env issueNumber pdfUrl fullSummary =
     bind (log (UpdateSummary issueNumber pdfUrl fullSummary)) (\<lambda>_.
     bind (or_throw (updateOne_summaries_error env)) (\<lambda>_.
     (\<lambda>s. (Ok (), s\<lparr>collection := (collection s)(issueNumber \<mapsto>
                       \<lparr>doc_pdfUrl = pdfUrl, doc_summary = Some fullSummary\<rparr>)\<rparr>))))"

text \<open>\<^verbatim>\<open>chunkCollection.findOne( { issueNumber, chunkIndex: i } )\<close>: the record's summary field.\<close>

definition findOne_chunk :: "env \<Rightarrow> jsval \<Rightarrow> nat \<Rightarrow> nullable option io" where
  "findOne_chunk env issueNumber i =
     bind (log (FindChunk issueNumber i)) (\<lambda>_.
     bind (or_throw (findOne_chunk_error env i)) (\<lambda>_.
     (\<lambda>s. (Ok (chunkCollection s (issueNumber, i)), s))))"

definition updateOne_chunk :: "env \<Rightarrow> jsval \<Rightarrow> nat \<Rightarrow> nullable \<Rightarrow> unit io" where
  "updateOne_chunk env issueNumber i summary =
     bind (log (UpdateChunk issueNumber i summary)) (\<lambda>_.
     bind (or_throw (updateOne_chunk_error env i)) (\<lambda>_.
     (\<lambda>s. (Ok (), s\<lparr>chunkCollection := (chunkCollection s)((issueNumber, i) \<mapsto> summary)\<rparr>))))"

text \<open>\<^verbatim>\<open>axios.get( pdfUrl, ... )\<close> followed by \<^verbatim>\<open>pdf( pdfBuffer )\<close>: the text of the PDF.\<close>

definition downloadText :: "env \<Rightarrow> jsval \<Rightarrow> jsstring io" where
  "downloadText env pdfUrl =
     bind (log (Fetch pdfUrl)) (\<lambda>_.
     (case fetchPdfText env pdfUrl of Inl e \<Rightarrow> throw e | Inr t \<Rightarrow> ret t))"

text \<open>The call \<^verbatim>\<open>splitIntoChunks( textContent )\<close>, with the default of the file as \<open>maxWords\<close>.\<close>

definition call_splitIntoChunks :: "jsstring \<Rightarrow> nat \<Rightarrow> jsstring list io" where
  "call_splitIntoChunks textContent maxWords =
     bind (log Split) (\<lambda>_.
     (\<lambda>s. case splitIntoChunks textContent maxWords of
            None \<Rightarrow> (Hang, s)
          | Some chunks \<Rightarrow> (Ok chunks, s)))"

definition summarizeChunk :: "env \<Rightarrow> jsstring \<Rightarrow> nat \<Rightarrow> chunk_summary io" where
  "summarizeChunk env chunk chunkIndex =
     bind (log (Summarize chunkIndex chunk)) (\<lambda>_.
     (case chat_completion env chunk chunkIndex of
        Inl e \<Rightarrow> throw e
      | Inr c \<Rightarrow> ret \<lparr>index = chunkIndex, content = c\<rparr>))"

text \<open>
  \<^verbatim>\<open>chunkSummaries.sort( ( a, b ) => a.index - b.index );
  chunkSummaries.map( ( c ) => c.content ).join( "\n\n" )\<close>
  (the sort of an array is stable).
\<close>

definition assemble :: "chunk_summary list \<Rightarrow> jsstring" where
  "assemble chunkSummaries =
     js_join [0x0A, 0x0A] (map (\<lambda>c. text_of (content c)) (sort_key index chunkSummaries))"

text \<open>\<^verbatim>\<open>existingSummary && existingSummary.summary\<close>, \<^verbatim>\<open>existingSummary?.summary\<close>\<close>

definition existing_summary :: "summary_doc option \<Rightarrow> jsstring option" where
  "existing_summary existingSummary =
     (case existingSummary of None \<Rightarrow> None | Some d \<Rightarrow> nonempty (doc_summary d))"

text \<open>\<^verbatim>\<open>cachedChunk && cachedChunk.summary\<close>, \<^verbatim>\<open>cachedChunk?.summary\<close>\<close>

definition cached_chunk :: "nullable option \<Rightarrow> jsstring option" where
  "cached_chunk cachedChunk =
     (case cachedChunk of None \<Rightarrow> None | Some summary \<Rightarrow> nonempty summary)"

section \<open>The handler of part_002\<close>

text \<open>The body of the loop over the chunks, lines 93 to 114.\<close>

definition chunked_iteration ::
  "env \<Rightarrow> jsval \<Rightarrow> jsstring list \<Rightarrow> nat \<Rightarrow> chunk_summary list \<Rightarrow> chunk_summary list io" where
  "chunked_iteration env issueNumber chunks i chunkSummaries =
     (let chunkText = chunks ! i in
      bind (findOne_chunk env issueNumber i) (\<lambda>cachedChunk.
      case cached_chunk cachedChunk of
        Some summary \<Rightarrow> ret (chunkSummaries @ [\<lparr>index = i, content = Some summary\<rparr>])
      | None \<Rightarrow>
          bind (summarizeChunk env chunkText i) (\<lambda>result.
          bind (updateOne_chunk env issueNumber i (content result)) (\<lambda>_.
          ret (chunkSummaries @ [result])))))"

function chunked_loop ::
  "env \<Rightarrow> jsval \<Rightarrow> jsstring list \<Rightarrow> nat \<Rightarrow> chunk_summary list \<Rightarrow> chunk_summary list io" where
  "chunked_loop env issueNumber chunks i chunkSummaries s =
     (if i < length chunks
      then (case chunked_iteration env issueNumber chunks i chunkSummaries s of
              (Ok chunkSummaries', s') \<Rightarrow> chunked_loop env issueNumber chunks (i + 1) chunkSummaries' s'
            | (Throw e, s') \<Rightarrow> (Throw e, s')
            | (Hang, s') \<Rightarrow> (Hang, s'))
      else (Ok chunkSummaries, s))"
  by pat_completeness auto
termination
  by (relation "measure (\<lambda>(env, issueNumber, chunks, i, chunkSummaries, s). length chunks - i)") auto

declare chunked_loop.simps [simp del]

definition chunked_body :: "env \<Rightarrow> request \<Rightarrow> unit io" where
  "chunked_body env req =
     (let pdfUrl = req_pdfUrl req; issueNumber = req_issueNumber req in
      if \<not> truthy pdfUrl \<or> \<not> truthy issueNumber
      then status_json 400 (JsonError ''Missing PDF URL or Issue Number'')
      else if typeof issueNumber \<noteq> ''string'' \<and> typeof issueNumber \<noteq> ''number''
      then status_json 400 (JsonError ''Invalid Issue Number format'')
      else
        bind (connectToDatabase env) (\<lambda>_.
        bind (findOne_summary env issueNumber) (\<lambda>existingSummary.
        case existing_summary existingSummary of
          Some summary \<Rightarrow> status_json 200 (JsonSummary summary)
        | None \<Rightarrow>
            bind (downloadText env pdfUrl) (\<lambda>textContent.
            bind (call_splitIntoChunks textContent 10000) (\<lambda>chunks.
            bind (chunked_loop env issueNumber chunks 0 []) (\<lambda>chunkSummaries.
            let fullSummary = assemble chunkSummaries in
            bind (updateOne_summary env issueNumber pdfUrl fullSummary) (\<lambda>_.
            status_json 200 (JsonSummary fullSummary))))))))"

definition handler_chunked :: "env \<Rightarrow> request \<Rightarrow> unit io" where
  "handler_chunked env req =
     (if req_method req \<noteq> ''POST''
      then status_json 405 (JsonError ''Method not allowed'')
      else try_catch (chunked_body env req)
             (\<lambda>error. status_json 500 (JsonError ''Failed to summarize PDF'')))"

section \<open>The streaming handler of pages/api/summarizePdf.js\<close>

text \<open>The body of the loop over the chunks, lines 189 to 212.\<close>

definition streaming_iteration ::
  "env \<Rightarrow> jsval \<Rightarrow> jsstring list \<Rightarrow> nat \<Rightarrow> chunk_summary list \<Rightarrow> chunk_summary list io" where
  "streaming_iteration env issueNumber chunks i chunkSummaries =
     (let chunkText = chunks ! i in
      bind (findOne_chunk env issueNumber i) (\<lambda>cachedChunk.
      bind (case cached_chunk cachedChunk of
              Some summary \<Rightarrow> ret (Some summary)
            | None \<Rightarrow>
                bind (summarizeChunk env chunkText i) (\<lambda>result.
                bind (updateOne_chunk env issueNumber i (content result)) (\<lambda>_.
                ret (content result)))) (\<lambda>summaryText.
      bind (res_write (StreamChunk i summaryText)) (\<lambda>_.
      ret (chunkSummaries @ [\<lparr>index = i, content = summaryText\<rparr>])))))"

function streaming_loop ::
  "env \<Rightarrow> jsval \<Rightarrow> jsstring list \<Rightarrow> nat \<Rightarrow> chunk_summary list \<Rightarrow> chunk_summary list io" where
  "streaming_loop env issueNumber chunks i chunkSummaries s =
     (if i < length chunks
      then (case streaming_iteration env issueNumber chunks i chunkSummaries s of
              (Ok chunkSummaries', s') \<Rightarrow> streaming_loop env issueNumber chunks (i + 1) chunkSummaries' s'
            | (Throw e, s') \<Rightarrow> (Throw e, s')
            | (Hang, s') \<Rightarrow> (Hang, s'))
      else (Ok chunkSummaries, s))"
  by pat_completeness auto
termination
  by (relation "measure (\<lambda>(env, issueNumber, chunks, i, chunkSummaries, s). length chunks - i)") auto

declare streaming_loop.simps [simp del]

definition streaming_body :: "env \<Rightarrow> request \<Rightarrow> unit io" where
  "streaming_body env req =
     (let pdfUrl = req_pdfUrl req; issueNumber = req_issueNumber req in
      if \<not> truthy pdfUrl \<or> \<not> truthy issueNumber
      then status_json 400 (JsonError ''Missing PDF URL or Issue Number'')
      else
        bind (connectToDatabase_cached env) (\<lambda>_.
        bind (findOne_summary env issueNumber) (\<lambda>existingSummary.
        case existing_summary existingSummary of
          Some summary \<Rightarrow>
            bind (setHeader ''Content-Type'' ''application/json'') (\<lambda>_.
            bind (res_write (JsonSummary summary)) (\<lambda>_.
            res_end))
        | None \<Rightarrow>
            bind (downloadText env pdfUrl) (\<lambda>textContent.
            bind (call_splitIntoChunks textContent 20000) (\<lambda>chunks.
            bind (setHeader ''Content-Type'' ''application/json; charset=utf-8'') (\<lambda>_.
            bind (setHeader ''Transfer-Encoding'' ''chunked'') (\<lambda>_.
            bind (res_write (StreamOpen (length chunks))) (\<lambda>_.
            bind (streaming_loop env issueNumber chunks 0 []) (\<lambda>chunkSummaries.
            bind (res_write StreamSummaryKey) (\<lambda>_.
            let fullSummary = assemble chunkSummaries in
            bind (updateOne_summary env issueNumber pdfUrl fullSummary) (\<lambda>_.
            bind (res_write (StreamSummary fullSummary)) (\<lambda>_.
            bind (res_write StreamClose) (\<lambda>_.
            res_end)))))))))))))"

definition handler_streaming :: "env \<Rightarrow> request \<Rightarrow> unit io" where
  "handler_streaming env req =
     (if req_method req \<noteq> ''POST''
      then status_json 405 (JsonError ''Method not allowed'')
      else try_catch (streaming_body env req)
             (\<lambda>error s.
                if \<not> headersSent s
                then status_json 500 (JsonError ''Failed to summarize PDF'') s
                else bind (res_write (StreamError (message error))) (\<lambda>_. res_end) s))"

section \<open>Notions used in the statements\<close>

text \<open>
  The two files with a chunking handler, the handler of each and the default \<open>maxWords\<close>
  of its \<^verbatim>\<open>splitIntoChunks\<close>. A request is served on the durable state \<open>s\<close>: the response
  object and the trace start afresh; \<open>final\<close> is the state the handler leaves.
\<close>

datatype handler_file = Part_002 | SummarizePdf_js

fun handler :: "handler_file \<Rightarrow> env \<Rightarrow> request \<Rightarrow> unit io" where
  "handler Part_002 = handler_chunked"
| "handler SummarizePdf_js = handler_streaming"

fun default_maxWords :: "handler_file \<Rightarrow> nat" where
  "default_maxWords Part_002 = 10000"
| "default_maxWords SummarizePdf_js = 20000"

definition serve :: "handler_file \<Rightarrow> env \<Rightarrow> request \<Rightarrow> state \<Rightarrow> unit outcome \<times> state" where
  "serve f env req s = handler f env req (next_request s)"

definition final :: "handler_file \<Rightarrow> env \<Rightarrow> request \<Rightarrow> state \<Rightarrow> state" where
  "final f env req s = snd (serve f env req s)"

text \<open>The error a handler sends when an operation throws after the download.\<close>

fun error_reply :: "handler_file \<Rightarrow> error \<Rightarrow> piece" where
  "error_reply Part_002 e = JsonError ''Failed to summarize PDF''"
| "error_reply SummarizePdf_js e = StreamError (message e)"

text \<open>A request that passes the validation of both handlers, for the identity \<open>k\<close>.\<close>

definition accepted :: "request \<Rightarrow> jsval \<Rightarrow> bool" where
  "accepted req k \<longleftrightarrow>
     req_method req = ''POST'' \<and> truthy (req_pdfUrl req) \<and> req_issueNumber req = k \<and>
     truthy k \<and> (typeof k = ''string'' \<or> typeof k = ''number'')"

text \<open>No database operation throws.\<close>

definition database_up :: "env \<Rightarrow> bool" where
  "database_up env \<longleftrightarrow>
     connect_error env = None \<and> findOne_summaries_error env = None \<and>
     (\<forall>i. findOne_chunk_error env i = None) \<and> (\<forall>i. updateOne_chunk_error env i = None) \<and>
     updateOne_summaries_error env = None"

text \<open>What a trace shows: the chunk indices the Summarizer was invoked for, in order; the
  downloads, splits and Summarizer invocations; the summaries and the errors sent in the
  response.\<close>

fun summarizer_call :: "event \<Rightarrow> nat option" where
  "summarizer_call (Summarize i chunk) = Some i"
| "summarizer_call ev = None"

definition summarizer_calls :: "event list \<Rightarrow> nat list" where
  "summarizer_calls evs = List.map_filter summarizer_call evs"

fun is_work :: "event \<Rightarrow> bool" where
  "is_work (Fetch url) = True"
| "is_work Split = True"
| "is_work (Summarize i chunk) = True"
| "is_work ev = False"

fun summary_of :: "piece \<Rightarrow> jsstring option" where
  "summary_of (JsonSummary t) = Some t"
| "summary_of (StreamSummary t) = Some t"
| "summary_of p = None"

definition summaries_sent :: "state \<Rightarrow> jsstring list" where
  "summaries_sent s = List.map_filter summary_of (body s)"

fun is_error :: "piece \<Rightarrow> bool" where
  "is_error (JsonError m) = True"
| "is_error (StreamError m) = True"
| "is_error p = False"

definition errors_sent :: "state \<Rightarrow> piece list" where
  "errors_sent s = filter is_error (body s)"

text \<open>
  The course of one chunk in a run that starts with the chunk collection \<open>cc\<close>: the summary
  text the loop obtains for chunk \<open>j\<close> (the cached one when there is one, else the answer of
  the completion service), whether and where its iteration throws (with the events up to
  the throw), the events of an iteration that does not throw, and the chunk collection
  after the iterations \<open>i\<close> to \<open>n - 1\<close>.
\<close>

type_synonym chunk_store = "jsval \<times> nat \<rightharpoonup> nullable"

definition chunk_text :: "env \<Rightarrow> chunk_store \<Rightarrow> jsval \<Rightarrow> jsstring list \<Rightarrow> nat \<Rightarrow> nullable" where
  "chunk_text env cc k chunks j =
     (case cached_chunk (cc (k, j)) of
        Some t \<Rightarrow> Some t
      | None \<Rightarrow> (case chat_completion env (chunks ! j) j of Inr c \<Rightarrow> c | Inl e \<Rightarrow> None))"

definition chunk_failure ::
  "env \<Rightarrow> chunk_store \<Rightarrow> jsval \<Rightarrow> jsstring list \<Rightarrow> nat \<Rightarrow> (error \<times> event list) option" where
  "chunk_failure env cc k chunks j =
     (case findOne_chunk_error env j of
        Some e \<Rightarrow> Some (e, [FindChunk k j])
      | None \<Rightarrow>
          (case cached_chunk (cc (k, j)) of
             Some t \<Rightarrow> None
           | None \<Rightarrow>
               (case chat_completion env (chunks ! j) j of
                  Inl e \<Rightarrow> Some (e, [FindChunk k j, Summarize j (chunks ! j)])
                | Inr c \<Rightarrow>
                    (case updateOne_chunk_error env j of
                       Some e \<Rightarrow> Some (e, [FindChunk k j, Summarize j (chunks ! j), UpdateChunk k j c])
                     | None \<Rightarrow> None))))"

definition chunk_events :: "env \<Rightarrow> chunk_store \<Rightarrow> jsval \<Rightarrow> jsstring list \<Rightarrow> nat \<Rightarrow> event list" where
  "chunk_events env cc k chunks j =
     FindChunk k j #
     (case cached_chunk (cc (k, j)) of
        Some t \<Rightarrow> []
      | None \<Rightarrow> [Summarize j (chunks ! j), UpdateChunk k j (chunk_text env cc k chunks j)])"

definition chunk_events_streaming ::
  "env \<Rightarrow> chunk_store \<Rightarrow> jsval \<Rightarrow> jsstring list \<Rightarrow> nat \<Rightarrow> event list" where
  "chunk_events_streaming env cc k chunks j =
     chunk_events env cc k chunks j @ [Write (StreamChunk j (chunk_text env cc k chunks j))]"

definition chunks_stored ::
  "env \<Rightarrow> chunk_store \<Rightarrow> jsval \<Rightarrow> jsstring list \<Rightarrow> nat \<Rightarrow> nat \<Rightarrow> chunk_store" where
  "chunks_stored env cc k chunks i n =
     (\<lambda>(k', j). if k' = k \<and> i \<le> j \<and> j < n \<and> cached_chunk (cc (k, j)) = None
                then Some (chunk_text env cc k chunks j) else cc (k', j))"

definition full_summary :: "env \<Rightarrow> chunk_store \<Rightarrow> jsval \<Rightarrow> jsstring list \<Rightarrow> jsstring" where
  "full_summary env cc k chunks =
     js_join [0x0A, 0x0A] (map (\<lambda>j. text_of (chunk_text env cc k chunks j)) [0..<length chunks])"

text \<open>The chunk indices, among \<open>js\<close>, for which the Chunk Cache holds no non-empty summary.\<close>

definition uncached :: "chunk_store \<Rightarrow> jsval \<Rightarrow> nat list \<Rightarrow> nat list" where
  "uncached cc k js = filter (\<lambda>j. cached_chunk (cc (k, j)) = None) js"

text \<open>
  The elements of \<^verbatim>\<open>text.split( /\s+/ )\<close> that chunk \<open>k\<close> joins, the texts that are not empty
  and neither begin nor end with white space, and the one chunk of an empty or
  whitespace-only document under the defaults of the handlers.
\<close>

definition chunk_tokens :: "jsstring \<Rightarrow> nat \<Rightarrow> nat \<Rightarrow> jsstring list" where
  "chunk_tokens text maxWords k = js_slice (split_ws text) (k * maxWords) (k * maxWords + maxWords)"

definition trimmed :: "jsstring \<Rightarrow> bool" where
  "trimmed text \<longleftrightarrow> text \<noteq> [] \<and> \<not> is_ws (hd text) \<and> \<not> is_ws (last text)"

definition blank_chunk :: "jsstring \<Rightarrow> jsstring" where
  "blank_chunk text = (if text = [] then [] else [0x20])"

subsection \<open>Auxiliary notions of the proofs\<close>

text \<open>What any run of the loops leaves alone and may add to the trace.\<close>

definition loop_adds :: "jsval \<Rightarrow> jsstring list \<Rightarrow> nat \<Rightarrow> state \<Rightarrow> state \<Rightarrow> bool" where
  "loop_adds k chunks i s s' \<longleftrightarrow>
     collection s' = collection s \<and> res s' = res s \<and> cachedDb s' = cachedDb s \<and>
     (\<exists>evs. trace s' = trace s @ evs \<and>
        set (summarizer_calls evs) \<subseteq>
          {j. i \<le> j \<and> j < length chunks \<and> cached_chunk (chunkCollection s (k, j)) = None} \<and>
        (\<forall>p \<in> set (List.map_filter written evs). \<exists>j c. p = StreamChunk j c))"

text \<open>The consecutive groups of \<open>m\<close> elements of a list, the last one holding the rest.\<close>

function groups :: "nat \<Rightarrow> 'a list \<Rightarrow> 'a list list" where
  "groups m ws = (if m = 0 \<or> ws = [] then [] else take m ws # groups m (drop m ws))"
  by pat_completeness auto
termination
  by (relation "measure (\<lambda>(m, ws). length ws)") auto

declare groups.simps [simp del]

section \<open>Concrete inputs\<close>

text \<open>
  A store with nothing in it; an environment in which the database never throws, with a
  given download and a given completion service; a POST request.
\<close>

definition empty_store :: state where
  "empty_store = \<lparr>collection = Map.empty, chunkCollection = Map.empty, cachedDb = False,
                   res = new_response, trace = []\<rparr>"

definition service :: "(jsval \<Rightarrow> error + jsstring) \<Rightarrow> (jsstring \<Rightarrow> nat \<Rightarrow> error + nullable) \<Rightarrow> env" where
  "service fetch complete =
     \<lparr>connect_error = None, findOne_summaries_error = None, fetchPdfText = fetch,
      findOne_chunk_error = (\<lambda>i. None), chat_completion = complete,
      updateOne_chunk_error = (\<lambda>i. None), updateOne_summaries_error = None\<rparr>"

definition post :: "jsval \<Rightarrow> jsval \<Rightarrow> request" where
  "post url k = \<lparr>req_method = ''POST'', req_pdfUrl = url, req_issueNumber = k\<rparr>"

text \<open>
  The request for issue 7 at the URL "u"; the environment in which the PDF has no text
  and every completion is "S"; the same with a Document Cache lookup that throws, and with
  Chunk Cache lookups that throw.
\<close>

definition sample_request :: request where
  "sample_request = post (JStr [0x75]) (JNum 7)"

definition sample_env :: env where
  "sample_env = service (\<lambda>url. Inr []) (\<lambda>chunk i. Inr (Some [0x53]))"

definition unreadable_env :: env where
  "unreadable_env = sample_env\<lparr>findOne_summaries_error := Some (Error [0x21])\<rparr>"

definition chunk_unreadable_env :: env where
  "chunk_unreadable_env = sample_env\<lparr>findOne_chunk_error := (\<lambda>i. Some (Error [0x21]))\<rparr>"

text \<open>
  A document of five chunks under the default of a handler: the word "a", \<open>4 * maxWords + 1\<close>
  times, separated by single spaces; its chunks are four times \<open>maxWords\<close> words and one
  word.
\<close>

primrec words_text :: "nat \<Rightarrow> jsstring" where
  "words_text 0 = [0x61]"
| "words_text (Suc n) = 0x61 # 0x20 # words_text n"

definition full_chunk :: "nat \<Rightarrow> jsstring" where
  "full_chunk m = js_join [0x20] (replicate m [0x61])"

definition five_chunk_text :: "handler_file \<Rightarrow> jsstring" where
  "five_chunk_text f = words_text (4 * default_maxWords f)"

definition five_chunks :: "handler_file \<Rightarrow> jsstring list" where
  "five_chunks f = [full_chunk (default_maxWords f), full_chunk (default_maxWords f),
                    full_chunk (default_maxWords f), full_chunk (default_maxWords f), [0x61]]"

text \<open>
  Environments that deliver this document: one where every completion is "S", one where
  the completion service throws on chunk 3, and one where it moreover answers chunk 0 with
  the empty string. A store whose Document Cache holds the summary "S" for issue 7, and one
  whose Chunk Cache holds the summary "C" for chunk 2 of issue 7.
\<close>

definition steady_env :: "handler_file \<Rightarrow> env" where
  "steady_env f = service (\<lambda>url. Inr (five_chunk_text f)) (\<lambda>chunk i. Inr (Some [0x53]))"

definition failing_env :: "handler_file \<Rightarrow> env" where
  "failing_env f = service (\<lambda>url. Inr (five_chunk_text f))
     (\<lambda>chunk i. if i = 3 then Inl (Error [0x21]) else Inr (Some [0x53]))"

definition blank_answer_env :: "handler_file \<Rightarrow> env" where
  "blank_answer_env f = service (\<lambda>url. Inr (five_chunk_text f))
     (\<lambda>chunk i. if i = 0 then Inr (Some []) else if i = 3 then Inl (Error [0x21]) else Inr (Some [0x53]))"

definition issue_7_cached :: state where
  "issue_7_cached =
     empty_store\<lparr>collection := [JNum 7 \<mapsto> \<lparr>doc_pdfUrl = JStr [0x75], doc_summary = Some [0x53]\<rparr>]\<rparr>"

definition chunk_2_cached :: state where
  "chunk_2_cached = empty_store\<lparr>chunkCollection := [(JNum 7, 2) \<mapsto> Some [0x43]]\<rparr>"

section \<open>The splitter\<close>

lemma groups_Nil [simp]: "groups m [] = []"
  by (simp add: groups.simps)

lemma groups_step: "0 < m \<Longrightarrow> ws \<noteq> [] \<Longrightarrow> groups m ws = take m ws # groups m (drop m ws)"
  by (subst groups.simps) simp

lemma chunk_loop_groups:
  "0 < m \<Longrightarrow> chunk_loop ws m i acc = Some (acc @ map (js_join [0x20]) (groups m (drop i ws)))"
proof (induction "length ws - i" arbitrary: i acc rule: less_induct)
  case less
  show ?case
  proof (cases "i < length ws")
    case True
    then have ne: "drop i ws \<noteq> []" by simp
    have "length ws - (i + m) < length ws - i" using True less.prems by arith
    from less.hyps [OF this less.prems]
    have "chunk_loop ws m (i + m) (acc @ [js_join [0x20] (js_slice ws i (i + m))]) =
            Some ((acc @ [js_join [0x20] (js_slice ws i (i + m))]) @
                  map (js_join [0x20]) (groups m (drop (i + m) ws)))" .
    moreover have "js_slice ws i (i + m) = take m (drop i ws)" by (simp add: js_slice_def)
    moreover have "drop (i + m) ws = drop m (drop i ws)" by (simp add: add.commute)
    ultimately show ?thesis
      using True by (subst chunk_loop.simps) (simp add: groups_step [OF less.prems ne])
  next
    case False
    then show ?thesis by (subst chunk_loop.simps) simp
  qed
qed

lemma splitIntoChunks_groups:
  "0 < m \<Longrightarrow> splitIntoChunks t m = Some (map (js_join [0x20]) (groups m (split_ws t)))"
  by (simp add: splitIntoChunks_def chunk_loop_groups)

lemma split_ws_not_Nil [simp]: "split_ws t \<noteq> []"
  by (induction t rule: split_ws.induct) (auto split: list.splits)

lemma concat_groups: "0 < m \<Longrightarrow> concat (groups m ws) = ws"
proof (induction m ws rule: groups.induct)
  case (1 m ws)
  then show ?case by (cases "ws = []") (simp_all add: groups_step)
qed

lemma groups_nonempty: "g \<in> set (groups m ws) \<Longrightarrow> g \<noteq> [] \<and> length g \<le> m"
proof (induction m ws rule: groups.induct)
  case (1 m ws)
  show ?case
  proof (cases "m = 0 \<or> ws = []")
    case True
    with "1.prems" show ?thesis by (auto simp: groups.simps)
  next
    case False
    with "1.prems" have "g = take m ws \<or> g \<in> set (groups m (drop m ws))"
      by (simp add: groups_step)
    with False "1.IH" show ?thesis by auto
  qed
qed

lemma groups_eq_Nil: "0 < m \<Longrightarrow> groups m ws = [] \<longleftrightarrow> ws = []"
  by (cases "ws = []") (simp_all add: groups_step)

lemma groups_nth:
  "0 < m \<Longrightarrow> k < length (groups m ws) \<Longrightarrow> groups m ws ! k = take m (drop (k * m) ws)"
proof (induction m ws arbitrary: k rule: groups.induct)
  case (1 m ws)
  from "1.prems" have ne: "ws \<noteq> []" by auto
  show ?case
  proof (cases k)
    case 0
    then show ?thesis using ne "1.prems" by (simp add: groups_step)
  next
    case (Suc j)
    with "1.prems" ne have "j < length (groups m (drop m ws))" by (simp add: groups_step)
    with "1.IH" [of j] ne "1.prems" have "groups m (drop m ws) ! j = take m (drop (j * m) (drop m ws))"
      by simp
    then show ?thesis using Suc ne "1.prems" by (simp add: groups_step add.commute)
  qed
qed

lemma groups_length_inner:
  "0 < m \<Longrightarrow> Suc k < length (groups m ws) \<Longrightarrow> length (groups m ws ! k) = m"
proof (induction m ws arbitrary: k rule: groups.induct)
  case (1 m ws)
  from "1.prems" have ne: "ws \<noteq> []" by auto
  with "1.prems" have rest: "groups m (drop m ws) \<noteq> []" by (auto simp: groups_step)
  then have "drop m ws \<noteq> []" by auto
  then have long: "m < length ws" by simp
  show ?case
  proof (cases k)
    case 0
    then show ?thesis using ne "1.prems" long by (simp add: groups_step)
  next
    case (Suc j)
    with "1.prems" ne have "Suc j < length (groups m (drop m ws))" by (simp add: groups_step)
    with "1.IH" [of j] ne "1.prems" have "length (groups m (drop m ws) ! j) = m" by simp
    then show ?thesis using Suc ne "1.prems" by (simp add: groups_step)
  qed
qed

lemma js_join_Cons: "ys \<noteq> [] \<Longrightarrow> js_join sep (x # ys) = x @ sep @ js_join sep ys"
  by (cases ys) simp_all

lemma js_join_append:
  "xs \<noteq> [] \<Longrightarrow> ys \<noteq> [] \<Longrightarrow> js_join sep (xs @ ys) = js_join sep xs @ sep @ js_join sep ys"
proof (induction xs)
  case Nil
  then show ?case by simp
next
  case (Cons x xs)
  show ?case
  proof (cases "xs = []")
    case True
    with Cons.prems show ?thesis by (simp add: js_join_Cons)
  next
    case False
    with Cons show ?thesis by (simp add: js_join_Cons)
  qed
qed

lemma js_join_concat:
  "\<forall>g \<in> set gs. g \<noteq> [] \<Longrightarrow> js_join sep (map (js_join sep) gs) = js_join sep (concat gs)"
proof (induction gs)
  case Nil
  then show ?case by simp
next
  case (Cons g gs)
  show ?case
  proof (cases "gs = []")
    case True
    then show ?thesis by simp
  next
    case False
    with Cons.prems have "concat gs \<noteq> []" by (cases gs) auto
    with Cons False show ?thesis by (simp add: js_join_Cons js_join_append)
  qed
qed

lemma js_join_groups:
  "0 < m \<Longrightarrow> js_join sep (map (js_join sep) (groups m ws)) = js_join sep ws"
  using js_join_concat [of "groups m ws" sep] groups_nonempty [of _ m ws]
  by (simp add: concat_groups)

lemma collapse_ws_Cons_ws:
  "is_ws c \<Longrightarrow> collapse_ws (c # cs) = 0x20 # collapse_ws (dropWhile is_ws cs)"
  by (induction cs arbitrary: c) simp_all

lemma collapse_ws_Cons_not_ws:
  "\<not> is_ws c \<Longrightarrow> collapse_ws (c # cs) = c # collapse_ws cs"
  by (cases cs) simp_all

lemma js_join_split_ws: "js_join [0x20] (split_ws t) = collapse_ws t"
proof (induction t rule: split_ws.induct)
  case 1
  then show ?case by simp
next
  case (2 c cs)
  show ?case
  proof (cases "is_ws c")
    case True
    with 2 show ?thesis by (simp add: js_join_Cons collapse_ws_Cons_ws)
  next
    case False
    obtain w ws where sp: "split_ws cs = w # ws" by (cases "split_ws cs") simp_all
    have "js_join [0x20] ((c # w) # ws) = c # js_join [0x20] (w # ws)"
      by (cases ws) simp_all
    with 2 False sp show ?thesis by (simp add: collapse_ws_Cons_not_ws)
  qed
qed

lemma is_ws_space [simp]: "is_ws 0x20"
  by (simp add: is_ws_def)

lemma split_ws_no_ws: "w \<in> set (split_ws t) \<Longrightarrow> c \<in> set w \<Longrightarrow> \<not> is_ws c"
proof (induction t arbitrary: w rule: split_ws.induct)
  case 1
  then show ?case by simp
next
  case (2 d ds)
  show ?case
  proof (cases "is_ws d")
    case True
    with 2 show ?thesis by auto
  next
    case False
    obtain v vs where sp: "split_ws ds = v # vs" by (cases "split_ws ds") simp_all
    with False "2.prems" have "w = d # v \<or> w \<in> set vs" by simp
    then show ?thesis
    proof
      assume "w = d # v"
      with "2.prems" have "c = d \<or> c \<in> set v" by simp
      with False "2.IH"(2) [of v] sp show ?thesis by auto
    next
      assume "w \<in> set vs"
      with False "2.IH"(2) [of w] sp "2.prems" show ?thesis by simp
    qed
  qed
qed

lemma hd_split_ws: "hd (split_ws t) = [] \<longleftrightarrow> t = [] \<or> is_ws (hd t)"
proof (cases t)
  case Nil
  then show ?thesis by simp
next
  case (Cons c cs)
  then show ?thesis by (cases "split_ws cs") simp_all
qed

lemma dropWhile_hd: "dropWhile P xs \<noteq> [] \<Longrightarrow> \<not> P (hd (dropWhile P xs))"
  by (metis hd_dropWhile)

lemma last_dropWhile: "dropWhile P xs \<noteq> [] \<Longrightarrow> last (dropWhile P xs) = last xs"
  by (induction xs) (auto split: if_splits)

lemma tl_split_ws: "[] \<in> set (tl (split_ws t)) \<Longrightarrow> t \<noteq> [] \<and> is_ws (last t)"
proof (induction t rule: split_ws.induct)
  case 1
  then show ?case by simp
next
  case (2 c cs)
  show ?case
  proof (cases "is_ws c")
    case True
    let ?d = "dropWhile is_ws cs"
    from True "2.prems" have mem: "[] \<in> set (split_ws ?d)" by simp
    show ?thesis
    proof (cases "?d = []")
      case True
      then have "\<forall>x \<in> set cs. is_ws x" by (simp add: dropWhile_eq_Nil_conv)
      with \<open>is_ws c\<close> show ?thesis by (cases "cs = []") simp_all
    next
      case False
      then have "\<not> is_ws (hd ?d)" by (rule dropWhile_hd)
      with False have "hd (split_ws ?d) \<noteq> []" by (simp add: hd_split_ws)
      with mem have "[] \<in> set (tl (split_ws ?d))"
        by (cases "split_ws ?d") auto
      with "2.IH"(1) True have "is_ws (last ?d)" by simp
      with False have "is_ws (last cs)" by (simp add: last_dropWhile)
      moreover from False have "cs \<noteq> []" by auto
      ultimately show ?thesis by simp
    qed
  next
    case False
    obtain v vs where sp: "split_ws cs = v # vs" by (cases "split_ws cs") simp_all
    with False "2.prems" have "[] \<in> set (tl (split_ws cs))" by simp
    with "2.IH"(2) False have "cs \<noteq> [] \<and> is_ws (last cs)" by simp
    then show ?thesis by simp
  qed
qed

lemma split_ws_trimmed:
  assumes "t \<noteq> []" "\<not> is_ws (hd t)" "\<not> is_ws (last t)"
  shows "[] \<notin> set (split_ws t)"
proof
  assume mem: "[] \<in> set (split_ws t)"
  from assms have "hd (split_ws t) \<noteq> []" by (simp add: hd_split_ws)
  with mem have "[] \<in> set (tl (split_ws t))" by (cases "split_ws t") auto
  with assms show False using tl_split_ws by blast
qed

lemma count_words_word:
  "w \<noteq> [] \<Longrightarrow> \<forall>c \<in> set w. \<not> is_ws c \<Longrightarrow> count_words w = 1"
proof (induction w rule: count_words.induct)
  case 1
  then show ?case by simp
next
  case (2 c)
  then show ?case by simp
next
  case (3 c d cs)
  then show ?case by simp
qed

lemma count_words_word_space:
  "w \<noteq> [] \<Longrightarrow> \<forall>c \<in> set w. \<not> is_ws c \<Longrightarrow> count_words (w @ 0x20 # r) = 1 + count_words r"
proof (induction w rule: count_words.induct)
  case 1
  then show ?case by simp
next
  case (2 c)
  then show ?case by (cases r) (simp_all)
next
  case (3 c d cs)
  then show ?case by simp
qed

lemma count_words_space: "count_words (0x20 # r) = count_words r"
  by (cases r) simp_all

lemma count_words_join_nonempty:
  "\<forall>w \<in> set ws. \<forall>c \<in> set w. \<not> is_ws c \<Longrightarrow>
   count_words (js_join [0x20] ws) = length (filter (\<lambda>w. w \<noteq> []) ws)"
proof (induction ws)
  case Nil
  then show ?case by simp
next
  case (Cons w ws)
  show ?case
  proof (cases "ws = []")
    case True
    with Cons.prems show ?thesis by (cases "w = []") (simp_all add: count_words_word)
  next
    case False
    show ?thesis
    proof (cases "w = []")
      case True
      with False Cons show ?thesis by (simp add: js_join_Cons count_words_space)
    next
      case w: False
      with False Cons show ?thesis by (simp add: js_join_Cons count_words_word_space)
    qed
  qed
qed

lemma split_ws_length2: "is_ws c \<Longrightarrow> c \<in> set t \<Longrightarrow> 2 \<le> length (split_ws t)"
proof (induction t rule: split_ws.induct)
  case 1
  then show ?case by simp
next
  case (2 d ds)
  show ?case
  proof (cases "is_ws d")
    case True
    have "1 \<le> length (split_ws (dropWhile is_ws ds))"
      by (cases "split_ws (dropWhile is_ws ds)") simp_all
    with True show ?thesis by simp
  next
    case False
    with "2.prems" have "c \<in> set ds" by auto
    with "2.IH"(2) False "2.prems"(1) have "2 \<le> length (split_ws ds)" by simp
    then show ?thesis using False by (cases "split_ws ds") simp_all
  qed
qed

lemma last_split_ws: "t \<noteq> [] \<Longrightarrow> is_ws (last t) \<Longrightarrow> last (split_ws t) = []"
proof (induction t rule: split_ws.induct)
  case 1
  then show ?case by simp
next
  case (2 c cs)
  show ?case
  proof (cases "is_ws c")
    case True
    let ?d = "dropWhile is_ws cs"
    show ?thesis
    proof (cases "?d = []")
      case d: True
      have "split_ws (c # cs) = [] # split_ws ?d" using True by simp
      also have "\<dots> = [[], []]" by (simp only: d split_ws.simps)
      finally show ?thesis by simp
    next
      case False
      then have "cs \<noteq> []" by auto
      with "2.prems" have "is_ws (last cs)" by simp
      with False have "is_ws (last ?d)" by (simp add: last_dropWhile)
      with "2.IH"(1) True False have "last (split_ws ?d) = []" by simp
      with True show ?thesis by simp
    qed
  next
    case False
    with "2.prems" have cs: "cs \<noteq> []" by auto
    with "2.prems" have l: "is_ws (last cs)" by simp
    with "2.IH"(2) False cs have e: "last (split_ws cs) = []" by simp
    from cs l have "last cs \<in> set cs" by simp
    with l have "2 \<le> length (split_ws cs)" by (rule split_ws_length2)
    then obtain w v vs where sp: "split_ws cs = w # v # vs"
      by (cases "split_ws cs"; cases "tl (split_ws cs)") auto
    with e False show ?thesis by simp
  qed
qed

lemma empty_element_iff: "[] \<in> set (split_ws t) \<longleftrightarrow> \<not> trimmed t"
proof
  assume "[] \<in> set (split_ws t)"
  then show "\<not> trimmed t" using split_ws_trimmed [of t] by (auto simp: trimmed_def)
next
  assume "\<not> trimmed t"
  then consider "t = []" | "t \<noteq> []" "is_ws (hd t)" | "t \<noteq> []" "is_ws (last t)"
    by (auto simp: trimmed_def)
  then show "[] \<in> set (split_ws t)"
  proof cases
    case 1
    then show ?thesis by simp
  next
    case 2
    then have "hd (split_ws t) = []" by (simp add: hd_split_ws)
    then show ?thesis by (metis split_ws_not_Nil hd_in_set)
  next
    case 3
    then have "last (split_ws t) = []" by (simp add: last_split_ws)
    then show ?thesis by (metis split_ws_not_Nil last_in_set)
  qed
qed

section \<open>One iteration and the loop of the handlers\<close>

lemmas io_defs = bind_def ret_def throw_def log_def or_throw_def res_write_def res_end_def
  setHeader_def status_json_def

lemmas op_defs = findOne_chunk_def updateOne_chunk_def summarizeChunk_def findOne_summary_def
  updateOne_summary_def downloadText_def call_splitIntoChunks_def connectToDatabase_def
  connectToDatabase_cached_def

lemma chunked_iteration_hit:
  assumes "findOne_chunk_error env i = None"
    and "cached_chunk (chunkCollection s (k, i)) = Some t"
  shows "chunked_iteration env k chunks i acc s =
           (Ok (acc @ [\<lparr>index = i, content = Some t\<rparr>]), s\<lparr>trace := trace s @ [FindChunk k i]\<rparr>)"
  using assms by (simp add: chunked_iteration_def io_defs op_defs)

lemma chunked_iteration_miss:
  assumes "findOne_chunk_error env i = None"
    and "cached_chunk (chunkCollection s (k, i)) = None"
    and "chat_completion env (chunks ! i) i = Inr c"
    and "updateOne_chunk_error env i = None"
  shows "chunked_iteration env k chunks i acc s =
           (Ok (acc @ [\<lparr>index = i, content = c\<rparr>]),
            s\<lparr>chunkCollection := (chunkCollection s)((k, i) \<mapsto> c),
              trace := trace s @ [FindChunk k i, Summarize i (chunks ! i), UpdateChunk k i c]\<rparr>)"
  using assms by (simp add: chunked_iteration_def io_defs op_defs)

lemma streaming_iteration_hit:
  assumes "findOne_chunk_error env i = None"
    and "cached_chunk (chunkCollection s (k, i)) = Some t"
  shows "streaming_iteration env k chunks i acc s =
           (Ok (acc @ [\<lparr>index = i, content = Some t\<rparr>]),
            s\<lparr>trace := trace s @ [FindChunk k i, Write (StreamChunk i (Some t))]\<rparr>)"
  using assms by (simp add: streaming_iteration_def io_defs op_defs)

lemma streaming_iteration_miss:
  assumes "findOne_chunk_error env i = None"
    and "cached_chunk (chunkCollection s (k, i)) = None"
    and "chat_completion env (chunks ! i) i = Inr c"
    and "updateOne_chunk_error env i = None"
  shows "streaming_iteration env k chunks i acc s =
           (Ok (acc @ [\<lparr>index = i, content = c\<rparr>]),
            s\<lparr>chunkCollection := (chunkCollection s)((k, i) \<mapsto> c),
              trace := trace s @ [FindChunk k i, Summarize i (chunks ! i), UpdateChunk k i c,
                                 Write (StreamChunk i c)]\<rparr>)"
  using assms by (simp add: streaming_iteration_def io_defs op_defs)

lemma streaming_iteration_ok:
  assumes "chunk_failure env (chunkCollection s) k chunks i = None"
  shows "streaming_iteration env k chunks i acc s =
           (Ok (acc @ [\<lparr>index = i, content = chunk_text env (chunkCollection s) k chunks i\<rparr>]),
            s\<lparr>chunkCollection := chunks_stored env (chunkCollection s) k chunks i (Suc i),
              trace := trace s @ chunk_events_streaming env (chunkCollection s) k chunks i\<rparr>)"
proof (cases "cached_chunk (chunkCollection s (k, i))")
  case None
  with assms obtain c where c: "findOne_chunk_error env i = None"
      "chat_completion env (chunks ! i) i = Inr c" "updateOne_chunk_error env i = None"
    by (auto simp: chunk_failure_def split: option.splits sum.splits)
  have "chunks_stored env (chunkCollection s) k chunks i (Suc i) = (chunkCollection s)((k, i) \<mapsto> c)"
    using None c by (auto simp: chunks_stored_def chunk_text_def fun_eq_iff le_less_Suc_eq)
  with None c show ?thesis
    by (simp add: streaming_iteration_miss chunk_events_streaming_def chunk_events_def chunk_text_def)
next
  case (Some t)
  with assms have c: "findOne_chunk_error env i = None"
    by (auto simp: chunk_failure_def split: option.splits)
  have "chunks_stored env (chunkCollection s) k chunks i (Suc i) = chunkCollection s"
    using Some by (auto simp: chunks_stored_def fun_eq_iff le_less_Suc_eq)
  with Some c show ?thesis
    by (simp add: streaming_iteration_hit chunk_events_streaming_def chunk_events_def chunk_text_def)
qed

lemma streaming_iteration_fails:
  assumes "chunk_failure env (chunkCollection s) k chunks i = Some (e, evs)"
  shows "streaming_iteration env k chunks i acc s = (Throw e, s\<lparr>trace := trace s @ evs\<rparr>)"
  using assms
  by (auto simp: chunk_failure_def streaming_iteration_def io_defs op_defs
           split: option.splits sum.splits)

lemma chunks_stored_other:
  "i < j \<Longrightarrow> chunks_stored env cc k chunks i (Suc i) (k, j) = cc (k, j)"
  by (auto simp: chunks_stored_def)

lemma chunk_text_stored:
  "i < j \<Longrightarrow> chunk_text env (chunks_stored env cc k chunks i (Suc i)) k chunks j = chunk_text env cc k chunks j"
  by (simp add: chunk_text_def chunks_stored_other)

lemma chunk_failure_stored:
  "i < j \<Longrightarrow> chunk_failure env (chunks_stored env cc k chunks i (Suc i)) k chunks j = chunk_failure env cc k chunks j"
  by (simp add: chunk_failure_def chunks_stored_other cong: option.case_cong sum.case_cong)

lemma chunk_events_stored:
  "i < j \<Longrightarrow> chunk_events_streaming env (chunks_stored env cc k chunks i (Suc i)) k chunks j
             = chunk_events_streaming env cc k chunks j"
  by (simp add: chunk_events_streaming_def chunk_events_def chunk_text_stored chunks_stored_other
           cong: option.case_cong)

lemma chunks_stored_compose:
  "i < n \<Longrightarrow> chunks_stored env (chunks_stored env cc k chunks i (Suc i)) k chunks (Suc i) n
           = chunks_stored env cc k chunks i n"
  by (auto simp: chunks_stored_def chunk_text_def fun_eq_iff)

lemma chunks_stored_empty: "n \<le> i \<Longrightarrow> chunks_stored env cc k chunks i n = cc"
  by (auto simp: chunks_stored_def fun_eq_iff)

lemma streaming_loop_ok:
  assumes "\<forall>j. i \<le> j \<and> j < length chunks \<longrightarrow> chunk_failure env (chunkCollection s) k chunks j = None"
  shows "streaming_loop env k chunks i acc s =
           (Ok (acc @ map (\<lambda>j. \<lparr>index = j, content = chunk_text env (chunkCollection s) k chunks j\<rparr>)
                          [i..<length chunks]),
            s\<lparr>chunkCollection := chunks_stored env (chunkCollection s) k chunks i (length chunks),
              trace := trace s @ concat (map (chunk_events_streaming env (chunkCollection s) k chunks)
                                             [i..<length chunks])\<rparr>)"
  using assms
proof (induction "length chunks - i" arbitrary: i acc s)
  case 0
  then have "\<not> i < length chunks" by simp
  then show ?case
    by (subst streaming_loop.simps) (simp add: chunks_stored_empty)
next
  case (Suc d)
  then have lt: "i < length chunks" by simp
  let ?cc = "chunkCollection s"
  let ?cc1 = "chunks_stored env ?cc k chunks i (Suc i)"
  let ?s1 = "s\<lparr>chunkCollection := ?cc1, trace := trace s @ chunk_events_streaming env ?cc k chunks i\<rparr>"
  let ?acc1 = "acc @ [\<lparr>index = i, content = chunk_text env ?cc k chunks i\<rparr>]"
  from Suc.prems lt have ok: "chunk_failure env ?cc k chunks i = None" by simp
  have d: "d = length chunks - Suc i" using Suc.hyps(2) by simp
  have rest: "\<forall>j. Suc i \<le> j \<and> j < length chunks \<longrightarrow>
                chunk_failure env (chunkCollection ?s1) k chunks j = None"
    using Suc.prems by (simp add: chunk_failure_stored)
  have ih: "streaming_loop env k chunks (Suc i) ?acc1 ?s1 =
          (Ok (?acc1 @ map (\<lambda>j. \<lparr>index = j, content = chunk_text env (chunkCollection ?s1) k chunks j\<rparr>)
                          [Suc i..<length chunks]),
            ?s1\<lparr>chunkCollection := chunks_stored env (chunkCollection ?s1) k chunks (Suc i) (length chunks),
              trace := trace ?s1 @ concat (map (chunk_events_streaming env (chunkCollection ?s1) k chunks)
                                             [Suc i..<length chunks])\<rparr>)"
    by (rule Suc.hyps(1) [OF d rest])
  have m1: "map (\<lambda>j. \<lparr>index = j, content = chunk_text env ?cc1 k chunks j\<rparr>) [Suc i..<length chunks]
          = map (\<lambda>j. \<lparr>index = j, content = chunk_text env ?cc k chunks j\<rparr>) [Suc i..<length chunks]"
    by (rule map_cong) (simp_all add: chunk_text_stored)
  have m2: "map (chunk_events_streaming env ?cc1 k chunks) [Suc i..<length chunks]
          = map (chunk_events_streaming env ?cc k chunks) [Suc i..<length chunks]"
    by (rule map_cong) (simp_all add: chunk_events_stored)
  have up: "[i..<length chunks] = i # [Suc i..<length chunks]"
    using lt by (simp add: upt_conv_Cons)
  show ?case
    using lt ih
    by (subst streaming_loop.simps)
       (simp add: streaming_iteration_ok [OF ok] m1 m2 up chunks_stored_compose)
qed

lemma streaming_loop_fails:
  assumes "i \<le> f" and "f < length chunks"
    and "\<forall>j. i \<le> j \<and> j < f \<longrightarrow> chunk_failure env (chunkCollection s) k chunks j = None"
    and "chunk_failure env (chunkCollection s) k chunks f = Some (e, evs)"
  shows "streaming_loop env k chunks i acc s =
           (Throw e,
            s\<lparr>chunkCollection := chunks_stored env (chunkCollection s) k chunks i f,
              trace := trace s @ concat (map (chunk_events_streaming env (chunkCollection s) k chunks)
                                             [i..<f]) @ evs\<rparr>)"
  using assms
proof (induction "f - i" arbitrary: i acc s)
  case 0
  then have "i = f" by simp
  with 0 show ?case
    by (subst streaming_loop.simps)
       (simp add: streaming_iteration_fails [of env s k chunks f e evs] chunks_stored_empty)
next
  case (Suc d)
  then have lt: "i < f" by simp
  with Suc.prems have lt': "i < length chunks" by simp
  let ?cc = "chunkCollection s"
  let ?cc1 = "chunks_stored env ?cc k chunks i (Suc i)"
  let ?s1 = "s\<lparr>chunkCollection := ?cc1, trace := trace s @ chunk_events_streaming env ?cc k chunks i\<rparr>"
  let ?acc1 = "acc @ [\<lparr>index = i, content = chunk_text env ?cc k chunks i\<rparr>]"
  from Suc.prems lt have ok: "chunk_failure env ?cc k chunks i = None" by simp
  have d: "d = f - Suc i" using Suc.hyps(2) by simp
  have le: "Suc i \<le> f" using lt by simp
  have rest: "\<forall>j. Suc i \<le> j \<and> j < f \<longrightarrow>
                chunk_failure env (chunkCollection ?s1) k chunks j = None"
    using Suc.prems by (simp add: chunk_failure_stored)
  have fl: "chunk_failure env (chunkCollection ?s1) k chunks f = Some (e, evs)"
    using Suc.prems lt by (simp add: chunk_failure_stored)
  have ih: "streaming_loop env k chunks (Suc i) ?acc1 ?s1 =
          (Throw e,
            ?s1\<lparr>chunkCollection := chunks_stored env (chunkCollection ?s1) k chunks (Suc i) f,
              trace := trace ?s1 @ concat (map (chunk_events_streaming env (chunkCollection ?s1) k chunks)
                                             [Suc i..<f]) @ evs\<rparr>)"
    by (rule Suc.hyps(1) [OF d le Suc.prems(2) rest fl])
  have m2: "map (chunk_events_streaming env ?cc1 k chunks) [Suc i..<f]
          = map (chunk_events_streaming env ?cc k chunks) [Suc i..<f]"
    by (rule map_cong) (simp_all add: chunk_events_stored)
  have up: "[i..<f] = i # [Suc i..<f]"
    using lt by (simp add: upt_conv_Cons)
  show ?case
    using lt' lt ih
    by (subst streaming_loop.simps)
       (simp add: streaming_iteration_ok [OF ok] m2 up chunks_stored_compose)
qed

lemma sort_key_upt:
  "sort_key index (map (\<lambda>j. \<lparr>index = j, content = c j\<rparr>) [i..<n]) =
   map (\<lambda>j. \<lparr>index = j, content = c j\<rparr>) [i..<n]"
  by (rule sort_key_id_if_sorted) (simp add: comp_def)

lemma assemble_upt:
  "assemble (map (\<lambda>j. \<lparr>index = j, content = c j\<rparr>) [i..<n]) =
   js_join [0x0A, 0x0A] (map (\<lambda>j. text_of (c j)) [i..<n])"
  by (simp add: assemble_def sort_key_upt comp_def)

lemma handler_streaming_miss_ok:
  assumes "req_method req = ''POST''"
    and "truthy (req_pdfUrl req)" and "truthy (req_issueNumber req)"
    and "cachedDb s \<or> connect_error env = None"
    and "findOne_summaries_error env = None"
    and "existing_summary (collection s (req_issueNumber req)) = None"
    and "fetchPdfText env (req_pdfUrl req) = Inr text"
    and "splitIntoChunks text 20000 = Some chunks"
    and "\<forall>j < length chunks. chunk_failure env (chunkCollection s) (req_issueNumber req) chunks j = None"
    and "updateOne_summaries_error env = None"
  shows "handler_streaming env req s =
     (Ok (),
      s\<lparr>collection := (collection s)(req_issueNumber req \<mapsto>
           \<lparr>doc_pdfUrl = req_pdfUrl req,
            doc_summary = Some (full_summary env (chunkCollection s) (req_issueNumber req) chunks)\<rparr>),
        chunkCollection := chunks_stored env (chunkCollection s) (req_issueNumber req) chunks 0 (length chunks),
        cachedDb := True,
        res := (res s)\<lparr>headers := headers (res s) @
                  [(''Content-Type'', ''application/json; charset=utf-8''),
                   (''Transfer-Encoding'', ''chunked'')],
                ended := True\<rparr>,
        trace := trace s @ (if cachedDb s then [] else [Connect]) @
                 [FindSummary (req_issueNumber req), Fetch (req_pdfUrl req), Split,
                  Write (StreamOpen (length chunks))] @
                 concat (map (chunk_events_streaming env (chunkCollection s) (req_issueNumber req) chunks)
                             [0..<length chunks]) @
                 [Write StreamSummaryKey,
                  UpdateSummary (req_issueNumber req) (req_pdfUrl req)
                    (full_summary env (chunkCollection s) (req_issueNumber req) chunks),
                  Write (StreamSummary (full_summary env (chunkCollection s) (req_issueNumber req) chunks)),
                  Write StreamClose]\<rparr>)"
  using assms
  by (cases "cachedDb s")
     (simp_all add: handler_streaming_def streaming_body_def try_catch_def io_defs op_defs
           streaming_loop_ok assemble_upt full_summary_def Let_def)

lemma chunked_iteration_ok:
  assumes "chunk_failure env (chunkCollection s) k chunks i = None"
  shows "chunked_iteration env k chunks i acc s =
           (Ok (acc @ [\<lparr>index = i, content = chunk_text env (chunkCollection s) k chunks i\<rparr>]),
            s\<lparr>chunkCollection := chunks_stored env (chunkCollection s) k chunks i (Suc i),
              trace := trace s @ chunk_events env (chunkCollection s) k chunks i\<rparr>)"
proof (cases "cached_chunk (chunkCollection s (k, i))")
  case None
  with assms obtain c where c: "findOne_chunk_error env i = None"
      "chat_completion env (chunks ! i) i = Inr c" "updateOne_chunk_error env i = None"
    by (auto simp: chunk_failure_def split: option.splits sum.splits)
  have "chunks_stored env (chunkCollection s) k chunks i (Suc i) = (chunkCollection s)((k, i) \<mapsto> c)"
    using None c by (auto simp: chunks_stored_def chunk_text_def fun_eq_iff le_less_Suc_eq)
  with None c show ?thesis
    by (simp add: chunked_iteration_miss chunk_events_def chunk_text_def)
next
  case (Some t)
  with assms have c: "findOne_chunk_error env i = None"
    by (auto simp: chunk_failure_def split: option.splits)
  have "chunks_stored env (chunkCollection s) k chunks i (Suc i) = chunkCollection s"
    using Some by (auto simp: chunks_stored_def fun_eq_iff le_less_Suc_eq)
  with Some c show ?thesis
    by (simp add: chunked_iteration_hit chunk_events_def chunk_text_def)
qed

lemma chunked_iteration_fails:
  assumes "chunk_failure env (chunkCollection s) k chunks i = Some (e, evs)"
  shows "chunked_iteration env k chunks i acc s = (Throw e, s\<lparr>trace := trace s @ evs\<rparr>)"
  using assms
  by (auto simp: chunk_failure_def chunked_iteration_def io_defs op_defs
           split: option.splits sum.splits)

lemma chunk_events_stored0:
  "i < j \<Longrightarrow> chunk_events env (chunks_stored env cc k chunks i (Suc i)) k chunks j
             = chunk_events env cc k chunks j"
  by (simp add: chunk_events_def chunk_text_stored chunks_stored_other cong: option.case_cong)

lemma chunked_loop_ok:
  assumes "\<forall>j. i \<le> j \<and> j < length chunks \<longrightarrow> chunk_failure env (chunkCollection s) k chunks j = None"
  shows "chunked_loop env k chunks i acc s =
           (Ok (acc @ map (\<lambda>j. \<lparr>index = j, content = chunk_text env (chunkCollection s) k chunks j\<rparr>)
                          [i..<length chunks]),
            s\<lparr>chunkCollection := chunks_stored env (chunkCollection s) k chunks i (length chunks),
              trace := trace s @ concat (map (chunk_events env (chunkCollection s) k chunks)
                                             [i..<length chunks])\<rparr>)"
  using assms
proof (induction "length chunks - i" arbitrary: i acc s)
  case 0
  then have "\<not> i < length chunks" by simp
  then show ?case
    by (subst chunked_loop.simps) (simp add: chunks_stored_empty)
next
  case (Suc d)
  then have lt: "i < length chunks" by simp
  let ?cc = "chunkCollection s"
  let ?cc1 = "chunks_stored env ?cc k chunks i (Suc i)"
  let ?s1 = "s\<lparr>chunkCollection := ?cc1, trace := trace s @ chunk_events env ?cc k chunks i\<rparr>"
  let ?acc1 = "acc @ [\<lparr>index = i, content = chunk_text env ?cc k chunks i\<rparr>]"
  from Suc.prems lt have ok: "chunk_failure env ?cc k chunks i = None" by simp
  have d: "d = length chunks - Suc i" using Suc.hyps(2) by simp
  have rest: "\<forall>j. Suc i \<le> j \<and> j < length chunks \<longrightarrow>
                chunk_failure env (chunkCollection ?s1) k chunks j = None"
    using Suc.prems by (simp add: chunk_failure_stored)
  have ih: "chunked_loop env k chunks (Suc i) ?acc1 ?s1 =
          (Ok (?acc1 @ map (\<lambda>j. \<lparr>index = j, content = chunk_text env (chunkCollection ?s1) k chunks j\<rparr>)
                          [Suc i..<length chunks]),
            ?s1\<lparr>chunkCollection := chunks_stored env (chunkCollection ?s1) k chunks (Suc i) (length chunks),
              trace := trace ?s1 @ concat (map (chunk_events env (chunkCollection ?s1) k chunks)
                                             [Suc i..<length chunks])\<rparr>)"
    by (rule Suc.hyps(1) [OF d rest])
  have m1: "map (\<lambda>j. \<lparr>index = j, content = chunk_text env ?cc1 k chunks j\<rparr>) [Suc i..<length chunks]
          = map (\<lambda>j. \<lparr>index = j, content = chunk_text env ?cc k chunks j\<rparr>) [Suc i..<length chunks]"
    by (rule map_cong) (simp_all add: chunk_text_stored)
  have m2: "map (chunk_events env ?cc1 k chunks) [Suc i..<length chunks]
          = map (chunk_events env ?cc k chunks) [Suc i..<length chunks]"
    by (rule map_cong) (simp_all add: chunk_events_stored0)
  have up: "[i..<length chunks] = i # [Suc i..<length chunks]"
    using lt by (simp add: upt_conv_Cons)
  show ?case
    using lt ih
    by (subst chunked_loop.simps)
       (simp add: chunked_iteration_ok [OF ok] m1 m2 up chunks_stored_compose)
qed

lemma chunked_loop_fails:
  assumes "i \<le> f" and "f < length chunks"
    and "\<forall>j. i \<le> j \<and> j < f \<longrightarrow> chunk_failure env (chunkCollection s) k chunks j = None"
    and "chunk_failure env (chunkCollection s) k chunks f = Some (e, evs)"
  shows "chunked_loop env k chunks i acc s =
           (Throw e,
            s\<lparr>chunkCollection := chunks_stored env (chunkCollection s) k chunks i f,
              trace := trace s @ concat (map (chunk_events env (chunkCollection s) k chunks)
                                             [i..<f]) @ evs\<rparr>)"
  using assms
proof (induction "f - i" arbitrary: i acc s)
  case 0
  then have "i = f" by simp
  with 0 show ?case
    by (subst chunked_loop.simps)
       (simp add: chunked_iteration_fails [of env s k chunks f e evs] chunks_stored_empty)
next
  case (Suc d)
  then have lt: "i < f" by simp
  with Suc.prems have lt': "i < length chunks" by simp
  let ?cc = "chunkCollection s"
  let ?cc1 = "chunks_stored env ?cc k chunks i (Suc i)"
  let ?s1 = "s\<lparr>chunkCollection := ?cc1, trace := trace s @ chunk_events env ?cc k chunks i\<rparr>"
  let ?acc1 = "acc @ [\<lparr>index = i, content = chunk_text env ?cc k chunks i\<rparr>]"
  from Suc.prems lt have ok: "chunk_failure env ?cc k chunks i = None" by simp
  have d: "d = f - Suc i" using Suc.hyps(2) by simp
  have le: "Suc i \<le> f" using lt by simp
  have rest: "\<forall>j. Suc i \<le> j \<and> j < f \<longrightarrow>
                chunk_failure env (chunkCollection ?s1) k chunks j = None"
    using Suc.prems by (simp add: chunk_failure_stored)
  have fl: "chunk_failure env (chunkCollection ?s1) k chunks f = Some (e, evs)"
    using Suc.prems lt by (simp add: chunk_failure_stored)
  have ih: "chunked_loop env k chunks (Suc i) ?acc1 ?s1 =
          (Throw e,
            ?s1\<lparr>chunkCollection := chunks_stored env (chunkCollection ?s1) k chunks (Suc i) f,
              trace := trace ?s1 @ concat (map (chunk_events env (chunkCollection ?s1) k chunks)
                                             [Suc i..<f]) @ evs\<rparr>)"
    by (rule Suc.hyps(1) [OF d le Suc.prems(2) rest fl])
  have m2: "map (chunk_events env ?cc1 k chunks) [Suc i..<f]
          = map (chunk_events env ?cc k chunks) [Suc i..<f]"
    by (rule map_cong) (simp_all add: chunk_events_stored0)
  have up: "[i..<f] = i # [Suc i..<f]"
    using lt by (simp add: upt_conv_Cons)
  show ?case
    using lt' lt ih
    by (subst chunked_loop.simps)
       (simp add: chunked_iteration_ok [OF ok] m2 up chunks_stored_compose)
qed

lemma handler_chunked_miss_ok:
  assumes "accepted req k"
    and "connect_error env = None"
    and "findOne_summaries_error env = None"
    and "existing_summary (collection s k) = None"
    and "fetchPdfText env (req_pdfUrl req) = Inr text"
    and "splitIntoChunks text 10000 = Some chunks"
    and "\<forall>j < length chunks. chunk_failure env (chunkCollection s) k chunks j = None"
    and "updateOne_summaries_error env = None"
  shows "handler_chunked env req s =
     (Ok (),
      s\<lparr>collection := (collection s)(k \<mapsto>
           \<lparr>doc_pdfUrl = req_pdfUrl req,
            doc_summary = Some (full_summary env (chunkCollection s) k chunks)\<rparr>),
        chunkCollection := chunks_stored env (chunkCollection s) k chunks 0 (length chunks),
        res := \<lparr>statusCode = 200,
                headers = headers (res s),
                ended = True\<rparr>,
        trace := trace s @
                 [Connect, FindSummary k, Fetch (req_pdfUrl req), Split] @
                 concat (map (chunk_events env (chunkCollection s) k chunks) [0..<length chunks]) @
                 [UpdateSummary k (req_pdfUrl req) (full_summary env (chunkCollection s) k chunks),
                  Write (JsonSummary (full_summary env (chunkCollection s) k chunks))]\<rparr>)"
  using assms
  by (auto simp add: accepted_def handler_chunked_def chunked_body_def try_catch_def io_defs op_defs
           chunked_loop_ok assemble_upt full_summary_def Let_def)

lemma map_filter_append:
  "List.map_filter f (xs @ ys) = List.map_filter f xs @ List.map_filter f ys"
  by (simp add: map_filter_def)

lemma body_nonempty: "Write p \<in> set (trace s) \<Longrightarrow> body s \<noteq> []"
proof -
  assume "Write p \<in> set (trace s)"
  then have "p \<in> set (List.map_filter written (trace s))"
    by (force simp: map_filter_def)
  then show ?thesis by (auto simp: body_def)
qed

lemma handler_chunked_fails_at:
  assumes "accepted req k"
    and "connect_error env = None"
    and "findOne_summaries_error env = None"
    and "existing_summary (collection s k) = None"
    and "fetchPdfText env (req_pdfUrl req) = Inr text"
    and "splitIntoChunks text 10000 = Some chunks"
    and "f < length chunks"
    and "\<forall>j < f. chunk_failure env (chunkCollection s) k chunks j = None"
    and "chunk_failure env (chunkCollection s) k chunks f = Some (e, evs)"
  shows "handler_chunked env req s =
     (Ok (),
      s\<lparr>chunkCollection := chunks_stored env (chunkCollection s) k chunks 0 f,
        res := \<lparr>statusCode = 500,
                headers = headers (res s),
                ended = True\<rparr>,
        trace := trace s @
                 [Connect, FindSummary k, Fetch (req_pdfUrl req), Split] @
                 concat (map (chunk_events env (chunkCollection s) k chunks) [0..<f]) @ evs @
                 [Write (JsonError ''Failed to summarize PDF'')]\<rparr>)"
proof -
  let ?s0 = "s\<lparr>trace := trace s @ [Connect, FindSummary k, Fetch (req_pdfUrl req), Split]\<rparr>"
  have "chunked_loop env k chunks 0 [] ?s0 =
           (Throw e,
            ?s0\<lparr>chunkCollection := chunks_stored env (chunkCollection ?s0) k chunks 0 f,
              trace := trace ?s0 @ concat (map (chunk_events env (chunkCollection ?s0) k chunks)
                                             [0..<f]) @ evs\<rparr>)"
    by (rule chunked_loop_fails) (use assms in simp_all)
  then show ?thesis
    using assms
    by (auto simp add: accepted_def handler_chunked_def chunked_body_def try_catch_def io_defs op_defs
           Let_def)
qed

lemma handler_streaming_fails_at:
  assumes "accepted req k"
    and "cachedDb s \<or> connect_error env = None"
    and "findOne_summaries_error env = None"
    and "existing_summary (collection s k) = None"
    and "fetchPdfText env (req_pdfUrl req) = Inr text"
    and "splitIntoChunks text 20000 = Some chunks"
    and "f < length chunks"
    and "\<forall>j < f. chunk_failure env (chunkCollection s) k chunks j = None"
    and "chunk_failure env (chunkCollection s) k chunks f = Some (e, evs)"
  shows "handler_streaming env req s =
     (Ok (),
      s\<lparr>chunkCollection := chunks_stored env (chunkCollection s) k chunks 0 f,
        cachedDb := True,
        res := (res s)\<lparr>headers := headers (res s) @
                  [(''Content-Type'', ''application/json; charset=utf-8''),
                   (''Transfer-Encoding'', ''chunked'')],
                ended := True\<rparr>,
        trace := trace s @ (if cachedDb s then [] else [Connect]) @
                 [FindSummary k, Fetch (req_pdfUrl req), Split, Write (StreamOpen (length chunks))] @
                 concat (map (chunk_events_streaming env (chunkCollection s) k chunks) [0..<f]) @ evs @
                 [Write (StreamError (message e))]\<rparr>)"
proof -
  let ?s0 = "s\<lparr>cachedDb := True,
                res := (res s)\<lparr>headers := headers (res s) @
                  [(''Content-Type'', ''application/json; charset=utf-8''),
                   (''Transfer-Encoding'', ''chunked'')]\<rparr>,
                trace := trace s @ (if cachedDb s then [] else [Connect]) @
                 [FindSummary k, Fetch (req_pdfUrl req), Split, Write (StreamOpen (length chunks))]\<rparr>"
  let ?s1 = "?s0\<lparr>chunkCollection := chunks_stored env (chunkCollection ?s0) k chunks 0 f,
              trace := trace ?s0 @ concat (map (chunk_events_streaming env (chunkCollection ?s0) k chunks)
                                             [0..<f]) @ evs\<rparr>"
  have loop: "streaming_loop env k chunks 0 [] ?s0 = (Throw e, ?s1)"
    by (rule streaming_loop_fails) (use assms in simp_all)
  have sent: "headersSent ?s1"
    unfolding headersSent_def by (rule disjI1, rule body_nonempty [of "StreamOpen (length chunks)"]) simp
  have c: "cachedDb s \<Longrightarrow> s\<lparr>cachedDb := True\<rparr> = s" by simp
  show ?thesis
  proof (cases "cachedDb s")
    case True
    with loop sent c assms show ?thesis
      by (simp add: accepted_def handler_streaming_def streaming_body_def try_catch_def io_defs op_defs
           Let_def)
  next
    case False
    with loop sent assms show ?thesis
      by (simp add: accepted_def handler_streaming_def streaming_body_def try_catch_def io_defs op_defs
           Let_def)
  qed
qed

lemma summarizer_calls_append [simp]:
  "summarizer_calls (xs @ ys) = summarizer_calls xs @ summarizer_calls ys"
  by (simp add: summarizer_calls_def map_filter_append)

lemma summarizer_calls_Nil [simp]: "summarizer_calls [] = []"
  by (simp add: summarizer_calls_def map_filter_simps)

lemma summarizer_calls_Cons [simp]:
  "summarizer_calls (ev # evs) =
     (case summarizer_call ev of None \<Rightarrow> summarizer_calls evs | Some i \<Rightarrow> i # summarizer_calls evs)"
  by (simp add: summarizer_calls_def map_filter_simps split: option.splits)

lemma summarizer_calls_chunk_events:
  "summarizer_calls (chunk_events env cc k chunks j) =
     (case cached_chunk (cc (k, j)) of Some t \<Rightarrow> [] | None \<Rightarrow> [j])"
  by (simp add: chunk_events_def split: option.splits)

lemma summarizer_calls_chunk_events_streaming:
  "summarizer_calls (chunk_events_streaming env cc k chunks j) =
     (case cached_chunk (cc (k, j)) of Some t \<Rightarrow> [] | None \<Rightarrow> [j])"
  by (simp add: chunk_events_streaming_def summarizer_calls_chunk_events)

lemma summarizer_calls_chunk_failure:
  "chunk_failure env cc k chunks j = Some (e, evs) \<Longrightarrow>
   set (summarizer_calls evs) \<subseteq> {i. i = j \<and> cached_chunk (cc (k, j)) = None}"
  by (auto simp: chunk_failure_def split: option.splits sum.splits)

lemma written_chunk_failure:
  "chunk_failure env cc k chunks j = Some (e, evs) \<Longrightarrow> List.map_filter written evs = []"
  by (auto simp: chunk_failure_def map_filter_simps split: option.splits sum.splits)

lemma streaming_loop_adds:
  "streaming_loop env k chunks i acc s = (r, s') \<Longrightarrow> r \<noteq> Hang \<and> loop_adds k chunks i s s'"
proof (induction "length chunks - i" arbitrary: i acc s)
  case 0
  then have "\<not> i < length chunks" by simp
  with 0 show ?case
    by (subst (asm) streaming_loop.simps) (auto simp: loop_adds_def map_filter_simps)
next
  case (Suc d)
  then have lt: "i < length chunks" by simp
  let ?cc = "chunkCollection s"
  show ?case
  proof (cases "chunk_failure env ?cc k chunks i")
    case (Some a)
    obtain e evs where a: "a = (e, evs)" by (cases a)
    from Some a have it: "streaming_iteration env k chunks i acc s = (Throw e, s\<lparr>trace := trace s @ evs\<rparr>)"
      by (simp add: streaming_iteration_fails)
    with Suc.prems lt have r: "r = Throw e" "s' = s\<lparr>trace := trace s @ evs\<rparr>"
      by (subst (asm) streaming_loop.simps, simp)+
    from Some a have "set (summarizer_calls evs) \<subseteq> {j. j = i \<and> cached_chunk (?cc (k, i)) = None}"
      by (simp add: summarizer_calls_chunk_failure)
    moreover from Some a have "List.map_filter written evs = []"
      by (simp add: written_chunk_failure)
    ultimately show ?thesis using r lt by (auto simp: loop_adds_def)
  next
    case None
    let ?cc1 = "chunks_stored env ?cc k chunks i (Suc i)"
    let ?s1 = "s\<lparr>chunkCollection := ?cc1, trace := trace s @ chunk_events_streaming env ?cc k chunks i\<rparr>"
    let ?acc1 = "acc @ [\<lparr>index = i, content = chunk_text env ?cc k chunks i\<rparr>]"
    from Suc.prems lt have next_run: "streaming_loop env k chunks (Suc i) ?acc1 ?s1 = (r, s')"
      by (subst (asm) streaming_loop.simps) (simp add: streaming_iteration_ok [OF None])
    have d: "d = length chunks - Suc i" using Suc.hyps(2) by simp
    from Suc.hyps(1) [OF d next_run] have ih: "r \<noteq> Hang" "loop_adds k chunks (Suc i) ?s1 s'"
      by simp_all
    then obtain evs where evs: "trace s' = trace ?s1 @ evs"
        "set (summarizer_calls evs) \<subseteq>
           {j. Suc i \<le> j \<and> j < length chunks \<and> cached_chunk (chunkCollection ?s1 (k, j)) = None}"
        "\<forall>p \<in> set (List.map_filter written evs). \<exists>j c. p = StreamChunk j c"
      by (auto simp: loop_adds_def)
    have sub: "set (summarizer_calls evs) \<subseteq>
           {j. i \<le> j \<and> j < length chunks \<and> cached_chunk (?cc (k, j)) = None}"
    proof
      fix j assume "j \<in> set (summarizer_calls evs)"
      with evs(2) have j: "Suc i \<le> j" "j < length chunks" "cached_chunk (?cc1 (k, j)) = None"
        by auto
      then have "?cc1 (k, j) = ?cc (k, j)" by (simp add: chunks_stored_other)
      with j show "j \<in> {j. i \<le> j \<and> j < length chunks \<and> cached_chunk (?cc (k, j)) = None}"
        by simp
    qed
    have tr: "trace s' = trace s @ (chunk_events_streaming env ?cc k chunks i @ evs)"
      using evs(1) by simp
    have c1: "set (summarizer_calls (chunk_events_streaming env ?cc k chunks i @ evs)) \<subseteq>
           {j. i \<le> j \<and> j < length chunks \<and> cached_chunk (?cc (k, j)) = None}"
      using sub lt by (auto simp: summarizer_calls_chunk_events_streaming split: option.splits)
    have c2: "\<forall>p \<in> set (List.map_filter written (chunk_events_streaming env ?cc k chunks i @ evs)).
                \<exists>j c. p = StreamChunk j c"
      using evs(3)
      by (auto simp: map_filter_append chunk_events_streaming_def chunk_events_def map_filter_simps
               split: option.splits)
    from ih(2) have "collection s' = collection s \<and> res s' = res s \<and> cachedDb s' = cachedDb s"
      by (simp add: loop_adds_def)
    with tr c1 c2 ih(1) show ?thesis
      unfolding loop_adds_def by blast
  qed
qed

lemma chunked_loop_adds:
  "chunked_loop env k chunks i acc s = (r, s') \<Longrightarrow> r \<noteq> Hang \<and> loop_adds k chunks i s s'"
proof (induction "length chunks - i" arbitrary: i acc s)
  case 0
  then have "\<not> i < length chunks" by simp
  with 0 show ?case
    by (subst (asm) chunked_loop.simps) (auto simp: loop_adds_def map_filter_simps)
next
  case (Suc d)
  then have lt: "i < length chunks" by simp
  let ?cc = "chunkCollection s"
  show ?case
  proof (cases "chunk_failure env ?cc k chunks i")
    case (Some a)
    obtain e evs where a: "a = (e, evs)" by (cases a)
    from Some a have it: "chunked_iteration env k chunks i acc s = (Throw e, s\<lparr>trace := trace s @ evs\<rparr>)"
      by (simp add: chunked_iteration_fails)
    with Suc.prems lt have r: "r = Throw e" "s' = s\<lparr>trace := trace s @ evs\<rparr>"
      by (subst (asm) chunked_loop.simps, simp)+
    from Some a have "set (summarizer_calls evs) \<subseteq> {j. j = i \<and> cached_chunk (?cc (k, i)) = None}"
      by (simp add: summarizer_calls_chunk_failure)
    moreover from Some a have "List.map_filter written evs = []"
      by (simp add: written_chunk_failure)
    ultimately show ?thesis using r lt by (auto simp: loop_adds_def)
  next
    case None
    let ?cc1 = "chunks_stored env ?cc k chunks i (Suc i)"
    let ?s1 = "s\<lparr>chunkCollection := ?cc1, trace := trace s @ chunk_events env ?cc k chunks i\<rparr>"
    let ?acc1 = "acc @ [\<lparr>index = i, content = chunk_text env ?cc k chunks i\<rparr>]"
    from Suc.prems lt have next_run: "chunked_loop env k chunks (Suc i) ?acc1 ?s1 = (r, s')"
      by (subst (asm) chunked_loop.simps) (simp add: chunked_iteration_ok [OF None])
    have d: "d = length chunks - Suc i" using Suc.hyps(2) by simp
    from Suc.hyps(1) [OF d next_run] have ih: "r \<noteq> Hang" "loop_adds k chunks (Suc i) ?s1 s'"
      by simp_all
    then obtain evs where evs: "trace s' = trace ?s1 @ evs"
        "set (summarizer_calls evs) \<subseteq>
           {j. Suc i \<le> j \<and> j < length chunks \<and> cached_chunk (chunkCollection ?s1 (k, j)) = None}"
        "\<forall>p \<in> set (List.map_filter written evs). \<exists>j c. p = StreamChunk j c"
      by (auto simp: loop_adds_def)
    have sub: "set (summarizer_calls evs) \<subseteq>
           {j. i \<le> j \<and> j < length chunks \<and> cached_chunk (?cc (k, j)) = None}"
    proof
      fix j assume "j \<in> set (summarizer_calls evs)"
      with evs(2) have j: "Suc i \<le> j" "j < length chunks" "cached_chunk (?cc1 (k, j)) = None"
        by auto
      then have "?cc1 (k, j) = ?cc (k, j)" by (simp add: chunks_stored_other)
      with j show "j \<in> {j. i \<le> j \<and> j < length chunks \<and> cached_chunk (?cc (k, j)) = None}"
        by simp
    qed
    have tr: "trace s' = trace s @ (chunk_events env ?cc k chunks i @ evs)"
      using evs(1) by simp
    have c1: "set (summarizer_calls (chunk_events env ?cc k chunks i @ evs)) \<subseteq>
           {j. i \<le> j \<and> j < length chunks \<and> cached_chunk (?cc (k, j)) = None}"
      using sub lt by (auto simp: summarizer_calls_chunk_events split: option.splits)
    have c2: "\<forall>p \<in> set (List.map_filter written (chunk_events env ?cc k chunks i @ evs)).
                \<exists>j c. p = StreamChunk j c"
      using evs(3)
      by (auto simp: map_filter_append chunk_events_def map_filter_simps
               split: option.splits)
    from ih(2) have "collection s' = collection s \<and> res s' = res s \<and> cachedDb s' = cachedDb s"
      by (simp add: loop_adds_def)
    with tr c1 c2 ih(1) show ?thesis
      unfolding loop_adds_def by blast
  qed
qed

section \<open>Claims about the splitter\<close>

lemma split_ws_whitespace_only:
  "whitespace_only text \<Longrightarrow> split_ws text = (if text = [] then [[]] else [[], []])"
proof (cases "text")
  case Nil
  then show ?thesis by simp
next
  case (Cons c cs)
  assume "whitespace_only text"
  with Cons have "is_ws c" "\<forall>x \<in> set cs. is_ws x"
    by (simp_all add: whitespace_only_def list_all_iff)
  then have dw: "dropWhile is_ws cs = []" by simp
  have "split_ws (c # cs) = [] # split_ws (dropWhile is_ws cs)"
    using \<open>is_ws c\<close> by simp
  also have "\<dots> = [[], []]" by (simp only: dw split_ws.simps)
  finally show ?thesis using Cons by simp
qed

lemma splitIntoChunks_whitespace_only:
  assumes "whitespace_only text" and "0 < maxWords"
  shows "splitIntoChunks text maxWords =
           Some (if text = [] then [[]] else if maxWords = 1 then [[], []] else [[0x20]])"
proof (cases "text = []")
  case True
  with assms show ?thesis
    by (simp add: splitIntoChunks_groups groups_step)
next
  case False
  show ?thesis
  proof (cases "maxWords = 1")
    case True
    with False assms show ?thesis
      by (simp add: splitIntoChunks_groups split_ws_whitespace_only groups_step)
  next
    case False
    with assms have "2 \<le> maxWords" by simp
    then have "take maxWords [[], []] = [[], []::jsstring]" "drop maxWords [[], []::jsstring] = []"
      by simp_all
    with \<open>text \<noteq> []\<close> False assms show ?thesis
      by (simp add: splitIntoChunks_groups split_ws_whitespace_only groups_step)
  qed
qed

text \<open>
  Claim C3. For every text and every positive \<open>maxWords\<close>, \<^verbatim>\<open>splitIntoChunks\<close> returns, and
  joining its chunks with single spaces gives the whitespace-normalised text: the text with
  every maximal run of white space replaced by one space.
\<close>

theorem splitIntoChunks_join_is_normalised:
  "0 < maxWords \<Longrightarrow>
   map_option (js_join [0x20]) (splitIntoChunks text maxWords) = Some (collapse_ws text)"
  by (simp add: splitIntoChunks_groups js_join_groups js_join_split_ws)

theorem splitIntoChunks_join_is_normalised_witness:
  "(0::nat) < 2 \<and>
   splitIntoChunks [0x20, 0x61, 0x0A, 0x20, 0x62, 0x63, 0x09, 0x64, 0x3000] 2 =
     Some [[0x20, 0x61], [0x62, 0x63, 0x20, 0x64], []] \<and>
   collapse_ws [0x20, 0x61, 0x0A, 0x20, 0x62, 0x63, 0x09, 0x64, 0x3000] =
     [0x20, 0x61, 0x20, 0x62, 0x63, 0x20, 0x64, 0x20] \<and>
   map_option (js_join [0x20])
     (splitIntoChunks [0x20, 0x61, 0x0A, 0x20, 0x62, 0x63, 0x09, 0x64, 0x3000] 2) =
     Some (collapse_ws [0x20, 0x61, 0x0A, 0x20, 0x62, 0x63, 0x09, 0x64, 0x3000])"
  using splitIntoChunks_join_is_normalised [of 2 "[0x20, 0x61, 0x0A, 0x20, 0x62, 0x63, 0x09, 0x64, 0x3000]"]
  by (simp add: splitIntoChunks_def chunk_loop.simps js_slice_def is_ws_def)

lemma chunk_tokens_groups:
  "0 < m \<Longrightarrow> k < length (groups m (split_ws text)) \<Longrightarrow>
   chunk_tokens text m k = groups m (split_ws text) ! k"
  by (simp add: chunk_tokens_def js_slice_def groups_nth)

text \<open>
  Claim C2, amended. For every text and every \<open>maxWords \<ge> 1\<close>, \<^verbatim>\<open>splitIntoChunks\<close> returns at
  least one chunk, and chunk \<open>k\<close> is the join of the elements \<open>k * maxWords\<close> and following
  of \<^verbatim>\<open>text.split( /\s+/ )\<close>: exactly \<open>maxWords\<close> elements for every chunk but the last, and
  between 1 and \<open>maxWords\<close> for the last. The words of a chunk are the non-empty ones among
  its elements, and the split has an empty element exactly when the text is empty or begins
  or ends with white space. So when the text is not empty and neither begins nor ends with
  white space, every chunk but the last has exactly \<open>maxWords\<close> words and the last between 1
  and \<open>maxWords\<close>.
\<close>

theorem chunk_token_counts:
  assumes "0 < maxWords"
  shows "\<exists>chunks. splitIntoChunks text maxWords = Some chunks \<and> chunks \<noteq> [] \<and>
     (\<forall>k < length chunks.
        chunks ! k = js_join [0x20] (chunk_tokens text maxWords k) \<and>
        count_words (chunks ! k) = length (filter (\<lambda>w. w \<noteq> []) (chunk_tokens text maxWords k)) \<and>
        (Suc k < length chunks \<longrightarrow> length (chunk_tokens text maxWords k) = maxWords) \<and>
        (Suc k = length chunks \<longrightarrow>
           1 \<le> length (chunk_tokens text maxWords k) \<and> length (chunk_tokens text maxWords k) \<le> maxWords)) \<and>
     ([] \<in> set (split_ws text) \<longleftrightarrow> \<not> trimmed text) \<and>
     (trimmed text \<longrightarrow>
        (\<forall>k < length chunks.
           (Suc k < length chunks \<longrightarrow> count_words (chunks ! k) = maxWords) \<and>
           (Suc k = length chunks \<longrightarrow>
              1 \<le> count_words (chunks ! k) \<and> count_words (chunks ! k) \<le> maxWords)))"
proof -
  let ?gs = "groups maxWords (split_ws text)"
  let ?chunks = "map (js_join [0x20]) ?gs"
  have split: "splitIntoChunks text maxWords = Some ?chunks"
    using assms by (rule splitIntoChunks_groups)
  have ne: "?chunks \<noteq> []"
    using assms by (simp add: groups_eq_Nil)
  have tok: "chunk_tokens text maxWords k = ?gs ! k" if "k < length ?gs" for k
    using assms that by (rule chunk_tokens_groups)
  have bounds: "?gs ! k \<noteq> [] \<and> length (?gs ! k) \<le> maxWords" if "k < length ?gs" for k
    using that groups_nonempty [of "?gs ! k" maxWords "split_ws text"] by simp
  have inner: "length (?gs ! k) = maxWords" if "Suc k < length ?gs" for k
    using assms that by (rule groups_length_inner)
  have sub: "set (?gs ! k) \<subseteq> set (split_ws text)" if "k < length ?gs" for k
    using assms that by (simp add: groups_nth) (meson set_take_subset set_drop_subset subset_trans)
  have words: "count_words (js_join [0x20] (?gs ! k)) = length (filter (\<lambda>w. w \<noteq> []) (?gs ! k))"
    if "k < length ?gs" for k
  proof (rule count_words_join_nonempty)
    from sub [OF that] show "\<forall>w \<in> set (?gs ! k). \<forall>c \<in> set w. \<not> is_ws c"
      using split_ws_no_ws by blast
  qed
  have A: "\<forall>k < length ?chunks.
        ?chunks ! k = js_join [0x20] (chunk_tokens text maxWords k) \<and>
        count_words (?chunks ! k) = length (filter (\<lambda>w. w \<noteq> []) (chunk_tokens text maxWords k)) \<and>
        (Suc k < length ?chunks \<longrightarrow> length (chunk_tokens text maxWords k) = maxWords) \<and>
        (Suc k = length ?chunks \<longrightarrow>
           1 \<le> length (chunk_tokens text maxWords k) \<and> length (chunk_tokens text maxWords k) \<le> maxWords)"
  proof (intro allI impI)
    fix k assume "k < length ?chunks"
    then have k: "k < length ?gs" by simp
    from bounds [OF k] have "1 \<le> length (?gs ! k)" by (cases "?gs ! k") simp_all
    with k bounds [OF k] inner [of k] words [OF k] show
      "?chunks ! k = js_join [0x20] (chunk_tokens text maxWords k) \<and>
        count_words (?chunks ! k) = length (filter (\<lambda>w. w \<noteq> []) (chunk_tokens text maxWords k)) \<and>
        (Suc k < length ?chunks \<longrightarrow> length (chunk_tokens text maxWords k) = maxWords) \<and>
        (Suc k = length ?chunks \<longrightarrow>
           1 \<le> length (chunk_tokens text maxWords k) \<and> length (chunk_tokens text maxWords k) \<le> maxWords)"
      by (simp add: tok)
  qed
  have E: "[] \<in> set (split_ws text) \<longleftrightarrow> \<not> trimmed text"
    by (rule empty_element_iff)
  have B: "\<forall>k < length ?chunks.
           (Suc k < length ?chunks \<longrightarrow> count_words (?chunks ! k) = maxWords) \<and>
           (Suc k = length ?chunks \<longrightarrow>
              1 \<le> count_words (?chunks ! k) \<and> count_words (?chunks ! k) \<le> maxWords)"
    if tr: "trimmed text"
  proof (intro allI impI)
    fix k assume "k < length ?chunks"
    then have k: "k < length ?gs" by simp
    from tr E have "[] \<notin> set (split_ws text)" by simp
    with sub [OF k] have "filter (\<lambda>w. w \<noteq> []) (?gs ! k) = ?gs ! k"
      by (auto simp: filter_id_conv)
    with words [OF k] have cw: "count_words (js_join [0x20] (?gs ! k)) = length (?gs ! k)"
      by simp
    from bounds [OF k] have "1 \<le> length (?gs ! k)" by (cases "?gs ! k") simp_all
    with k cw bounds [OF k] inner [of k] show
      "(Suc k < length ?chunks \<longrightarrow> count_words (?chunks ! k) = maxWords) \<and>
           (Suc k = length ?chunks \<longrightarrow>
              1 \<le> count_words (?chunks ! k) \<and> count_words (?chunks ! k) \<le> maxWords)"
      by simp
  qed
  from split ne A E B show ?thesis by blast
qed

theorem chunk_token_counts_witness:
  "(0::nat) < 2 \<and> trimmed [0x61, 0x20, 0x62, 0x0A, 0x0A, 0x63] \<and>
   splitIntoChunks [0x61, 0x20, 0x62, 0x0A, 0x0A, 0x63] 2 = Some [[0x61, 0x20, 0x62], [0x63]] \<and>
   chunk_tokens [0x61, 0x20, 0x62, 0x0A, 0x0A, 0x63] 2 0 = [[0x61], [0x62]] \<and>
   chunk_tokens [0x61, 0x20, 0x62, 0x0A, 0x0A, 0x63] 2 1 = [[0x63]] \<and>
   count_words [0x61, 0x20, 0x62] = 2 \<and> count_words [0x63] = 1 \<and>
   (\<exists>chunks. splitIntoChunks [0x61, 0x20, 0x62, 0x0A, 0x0A, 0x63] 2 = Some chunks \<and> chunks \<noteq> [] \<and>
     (\<forall>k < length chunks.
        chunks ! k = js_join [0x20] (chunk_tokens [0x61, 0x20, 0x62, 0x0A, 0x0A, 0x63] 2 k) \<and>
        count_words (chunks ! k) =
          length (filter (\<lambda>w. w \<noteq> []) (chunk_tokens [0x61, 0x20, 0x62, 0x0A, 0x0A, 0x63] 2 k)) \<and>
        (Suc k < length chunks \<longrightarrow> length (chunk_tokens [0x61, 0x20, 0x62, 0x0A, 0x0A, 0x63] 2 k) = 2) \<and>
        (Suc k = length chunks \<longrightarrow>
           1 \<le> length (chunk_tokens [0x61, 0x20, 0x62, 0x0A, 0x0A, 0x63] 2 k) \<and> length (chunk_tokens [0x61, 0x20, 0x62, 0x0A, 0x0A, 0x63] 2 k) \<le> 2)) \<and>
     ([] \<in> set (split_ws [0x61, 0x20, 0x62, 0x0A, 0x0A, 0x63]) \<longleftrightarrow>
        \<not> trimmed [0x61, 0x20, 0x62, 0x0A, 0x0A, 0x63]) \<and>
     (trimmed [0x61, 0x20, 0x62, 0x0A, 0x0A, 0x63] \<longrightarrow>
        (\<forall>k < length chunks.
           (Suc k < length chunks \<longrightarrow> count_words (chunks ! k) = 2) \<and>
           (Suc k = length chunks \<longrightarrow>
              1 \<le> count_words (chunks ! k) \<and> count_words (chunks ! k) \<le> 2))))"
proof -
  have pos: "(0::nat) < 2" by simp
  have sp: "splitIntoChunks [0x61, 0x20, 0x62, 0x0A, 0x0A, 0x63] 2 = Some [[0x61, 0x20, 0x62], [0x63]]"
    by (simp add: splitIntoChunks_def chunk_loop.simps js_slice_def is_ws_def)
  have tr: "trimmed [0x61, 0x20, 0x62, 0x0A, 0x0A, 0x63]"
    by (simp add: trimmed_def is_ws_def)
  have tk: "chunk_tokens [0x61, 0x20, 0x62, 0x0A, 0x0A, 0x63] 2 0 = [[0x61], [0x62]]"
    "chunk_tokens [0x61, 0x20, 0x62, 0x0A, 0x0A, 0x63] 2 1 = [[0x63]]"
    by (simp_all add: chunk_tokens_def js_slice_def is_ws_def)
  have cw: "count_words [0x61, 0x20, 0x62] = 2" "count_words [0x63] = 1"
    by (simp_all add: is_ws_def)
  note inst = chunk_token_counts [OF pos, of "[0x61, 0x20, 0x62, 0x0A, 0x0A, 0x63]"]
  from pos tr sp tk cw inst show ?thesis by (intro conjI)
qed

text \<open>
  Claim C2 as stated fails: a text that begins with a space, \<open>maxWords = 2\<close>; the first of
  the two chunks is made of the empty element and one word.
\<close>

theorem chunk_word_count_counterexample:
  "splitIntoChunks [0x20, 0x61, 0x20, 0x62] 2 = Some [[0x20, 0x61], [0x62]] \<and>
   chunk_tokens [0x20, 0x61, 0x20, 0x62] 2 0 = [[], [0x61]] \<and>
   Suc 0 < length [[0x20, 0x61], [0x62::jschar]] \<and>
   count_words ([[0x20, 0x61], [0x62]] ! 0) = 1 \<and>
   count_words ([[0x20, 0x61], [0x62]] ! 0) \<noteq> 2"
  by (simp add: splitIntoChunks_def chunk_loop.simps js_slice_def is_ws_def chunk_tokens_def)

section \<open>Runs of the handlers in any environment\<close>

lemma handler_chunked_calls:
  assumes acc: "accepted req k"
    and fetch: "fetchPdfText env (req_pdfUrl req) = Inr text"
    and split: "splitIntoChunks text 10000 = Some chunks"
    and tr: "trace s = []"
  shows "set (summarizer_calls (trace (snd (handler_chunked env req s)))) \<subseteq>
           {j. j < length chunks \<and> cached_chunk (chunkCollection s (k, j)) = None}"
proof -
  let ?s0 = "s\<lparr>trace := [Connect, FindSummary k, Fetch (req_pdfUrl req), Split]\<rparr>"
  obtain r1 s1 where loop: "chunked_loop env k chunks 0 [] ?s0 = (r1, s1)" by force
  from chunked_loop_adds [OF loop] obtain evs where evs: "r1 \<noteq> Hang" "trace s1 = trace ?s0 @ evs"
      "set (summarizer_calls evs) \<subseteq>
         {j. j < length chunks \<and> cached_chunk (chunkCollection s (k, j)) = None}"
    by (auto simp: loop_adds_def)
  show ?thesis
    using acc fetch split tr loop evs
    by (cases r1)
       (auto simp: accepted_def handler_chunked_def chunked_body_def try_catch_def io_defs op_defs Let_def
             split: option.splits)
qed

lemma handler_streaming_calls:
  assumes acc: "accepted req k"
    and fetch: "fetchPdfText env (req_pdfUrl req) = Inr text"
    and split: "splitIntoChunks text 20000 = Some chunks"
    and tr: "trace s = []"
  shows "set (summarizer_calls (trace (snd (handler_streaming env req s)))) \<subseteq>
           {j. j < length chunks \<and> cached_chunk (chunkCollection s (k, j)) = None}"
proof -
  let ?s0 = "s\<lparr>cachedDb := True,
                res := (res s)\<lparr>headers := headers (res s) @
                  [(''Content-Type'', ''application/json; charset=utf-8''),
                   (''Transfer-Encoding'', ''chunked'')]\<rparr>,
                trace := (if cachedDb s then [] else [Connect]) @
                 [FindSummary k, Fetch (req_pdfUrl req), Split, Write (StreamOpen (length chunks))]\<rparr>"
  obtain r1 s1 where loop: "streaming_loop env k chunks 0 [] ?s0 = (r1, s1)" by force
  from streaming_loop_adds [OF loop] obtain evs where evs: "r1 \<noteq> Hang" "trace s1 = trace ?s0 @ evs"
      "set (summarizer_calls evs) \<subseteq>
         {j. j < length chunks \<and> cached_chunk (chunkCollection s (k, j)) = None}"
    by (auto simp: loop_adds_def)
  have c: "cachedDb s \<Longrightarrow> s\<lparr>cachedDb := True\<rparr> = s" by simp
  show ?thesis
    using acc fetch split tr loop evs c
    by (cases r1; cases "cachedDb s")
       (auto simp: accepted_def handler_streaming_def streaming_body_def try_catch_def io_defs op_defs Let_def
             split: option.splits)
qed

lemma nonempty_Some: "nonempty v = Some t \<longleftrightarrow> v = Some t \<and> t \<noteq> []"
  by (cases v) auto

lemma no_summary_in_chunk_writes:
  "\<forall>p \<in> set ps. \<exists>j c. p = StreamChunk j c \<Longrightarrow> List.map_filter summary_of ps = []"
  by (induction ps) (auto simp: map_filter_simps)

lemma summaries_sent_trace:
  "summaries_sent s = List.map_filter summary_of (List.map_filter written (trace s))"
  by (simp add: summaries_sent_def body_def)

lemma handler_chunked_summary_stored:
  assumes acc: "accepted req k"
    and tr: "trace s = []"
    and sent: "t \<in> set (summaries_sent (snd (handler_chunked env req s)))"
  shows "\<exists>d. collection (snd (handler_chunked env req s)) k = Some d \<and> doc_summary d = Some t"
proof (cases "fetchPdfText env (req_pdfUrl req)")
  case (Inl e)
  with acc tr sent show ?thesis
    by (auto simp: accepted_def handler_chunked_def chunked_body_def try_catch_def io_defs op_defs Let_def
          summaries_sent_trace map_filter_simps existing_summary_def nonempty_Some
          split: option.splits if_splits)
next
  case (Inr pdf)
  obtain chunks where split: "splitIntoChunks pdf 10000 = Some chunks"
    by (simp add: splitIntoChunks_groups)
  let ?s0 = "s\<lparr>trace := [Connect, FindSummary k, Fetch (req_pdfUrl req), Split]\<rparr>"
  obtain r1 s1 where loop: "chunked_loop env k chunks 0 [] ?s0 = (r1, s1)" by force
  from chunked_loop_adds [OF loop] obtain evs where evs: "r1 \<noteq> Hang" "trace s1 = trace ?s0 @ evs"
      "collection s1 = collection s"
      "\<forall>p \<in> set (List.map_filter written evs). \<exists>j c. p = StreamChunk j c"
    by (auto simp: loop_adds_def)
  from evs(4) have none: "List.map_filter summary_of (List.map_filter written evs) = []"
    by (rule no_summary_in_chunk_writes)
  show ?thesis
    using acc tr sent Inr split loop evs(1,2,3) none
    by (cases r1)
       (auto simp: accepted_def handler_chunked_def chunked_body_def try_catch_def io_defs op_defs Let_def
          summaries_sent_trace map_filter_simps map_filter_append existing_summary_def nonempty_Some
          split: option.splits if_splits)
qed

lemma handler_streaming_summary_stored:
  assumes acc: "accepted req k"
    and tr: "trace s = []" "\<not> ended (res s)"
    and sent: "t \<in> set (summaries_sent (snd (handler_streaming env req s)))"
  shows "\<exists>d. collection (snd (handler_streaming env req s)) k = Some d \<and> doc_summary d = Some t"
proof (cases "fetchPdfText env (req_pdfUrl req)")
  case (Inl e)
  have c: "cachedDb s \<Longrightarrow> s\<lparr>cachedDb := True\<rparr> = s" by simp
  from Inl acc tr sent c show ?thesis
    by (cases "cachedDb s")
       (auto simp: accepted_def handler_streaming_def streaming_body_def try_catch_def io_defs op_defs Let_def
          summaries_sent_trace map_filter_simps existing_summary_def nonempty_Some headersSent_def body_def
          split: option.splits if_splits)
next
  case (Inr pdf)
  obtain chunks where split: "splitIntoChunks pdf 20000 = Some chunks"
    by (simp add: splitIntoChunks_groups)
  let ?s0 = "s\<lparr>cachedDb := True,
                res := (res s)\<lparr>headers := headers (res s) @
                  [(''Content-Type'', ''application/json; charset=utf-8''),
                   (''Transfer-Encoding'', ''chunked'')]\<rparr>,
                trace := (if cachedDb s then [] else [Connect]) @
                 [FindSummary k, Fetch (req_pdfUrl req), Split, Write (StreamOpen (length chunks))]\<rparr>"
  obtain r1 s1 where loop: "streaming_loop env k chunks 0 [] ?s0 = (r1, s1)" by force
  from streaming_loop_adds [OF loop] obtain evs where evs: "r1 \<noteq> Hang" "trace s1 = trace ?s0 @ evs"
      "collection s1 = collection s"
      "\<forall>p \<in> set (List.map_filter written evs). \<exists>j c. p = StreamChunk j c"
    by (auto simp: loop_adds_def)
  from evs(4) have none: "List.map_filter summary_of (List.map_filter written evs) = []"
    by (rule no_summary_in_chunk_writes)
  have c: "cachedDb s \<Longrightarrow> s\<lparr>cachedDb := True\<rparr> = s" by simp
  show ?thesis
    using acc tr sent Inr split loop evs(1,2,3) none c
    by (cases r1; cases "cachedDb s")
       (auto simp: accepted_def handler_streaming_def streaming_body_def try_catch_def io_defs op_defs Let_def
          summaries_sent_trace map_filter_simps map_filter_append existing_summary_def nonempty_Some
          headersSent_def body_def
          split: option.splits if_splits)
qed

section \<open>Claims about the handlers\<close>

lemma sort_key_index_perm:
  assumes "distinct (map index cs)" and "mset cs' = mset cs"
  shows "sort_key index cs' = sort_key index cs"
proof (rule sort_key_inj_key_eq)
  show "mset cs' = mset (sort_key index cs)" using assms by simp
  have "set cs' = set cs" using assms(2) by (rule mset_eq_setD)
  then show "inj_on index (set cs')" using assms(1) by (simp add: distinct_map)
  show "sorted (map index (sort_key index cs))" by simp
qed

text \<open>
  Claim C6. The assembled document summary is the texts of the chunk summaries joined with
  the separator of two line feeds, in ascending order of chunk index, whatever the order in
  which the summaries were produced (the indices of the chunks of one document are
  distinct); for the summaries A, B, C at the indices 0, 1, 2 it is A, two line feeds, B,
  two line feeds, C.
\<close>

theorem assemble_in_index_order:
  assumes "distinct (map index cs)" and "mset cs' = mset cs"
  shows "assemble cs' = assemble cs \<and>
         (\<exists>ys. mset ys = mset cs \<and> sorted (map index ys) \<and>
               assemble cs = js_join [0x0A, 0x0A] (map (\<lambda>c. text_of (content c)) ys)) \<and>
         assemble [\<lparr>index = 0, content = Some [0x41]\<rparr>, \<lparr>index = 1, content = Some [0x42]\<rparr>,
                   \<lparr>index = 2, content = Some [0x43]\<rparr>] = [0x41, 0x0A, 0x0A, 0x42, 0x0A, 0x0A, 0x43]"
proof (intro conjI)
  show "assemble cs' = assemble cs"
    by (simp add: assemble_def sort_key_index_perm [OF assms])
  show "\<exists>ys. mset ys = mset cs \<and> sorted (map index ys) \<and>
               assemble cs = js_join [0x0A, 0x0A] (map (\<lambda>c. text_of (content c)) ys)"
    by (rule exI [of _ "sort_key index cs"]) (simp add: assemble_def)
  show "assemble [\<lparr>index = 0, content = Some [0x41]\<rparr>, \<lparr>index = 1, content = Some [0x42]\<rparr>,
                   \<lparr>index = 2, content = Some [0x43]\<rparr>] = [0x41, 0x0A, 0x0A, 0x42, 0x0A, 0x0A, 0x43]"
    by (simp add: assemble_def)
qed

theorem assemble_in_index_order_witness:
  "distinct (map index [\<lparr>index = 0, content = Some [0x41]\<rparr>, \<lparr>index = 1, content = Some [0x42]\<rparr>,
                        \<lparr>index = 2, content = Some [0x43]\<rparr>]) \<and>
   mset [\<lparr>index = 2, content = Some [0x43]\<rparr>, \<lparr>index = 0, content = Some [0x41]\<rparr>,
         \<lparr>index = 1, content = Some [0x42]\<rparr>] =
   mset [\<lparr>index = 0, content = Some [0x41]\<rparr>, \<lparr>index = 1, content = Some [0x42]\<rparr>,
         \<lparr>index = 2, content = Some [0x43]\<rparr>] \<and>
   assemble [\<lparr>index = 2, content = Some [0x43]\<rparr>, \<lparr>index = 0, content = Some [0x41]\<rparr>,
             \<lparr>index = 1, content = Some [0x42]\<rparr>] =
   assemble [\<lparr>index = 0, content = Some [0x41]\<rparr>, \<lparr>index = 1, content = Some [0x42]\<rparr>,
             \<lparr>index = 2, content = Some [0x43]\<rparr>]"
proof -
  have d: "distinct (map index [\<lparr>index = 0, content = Some [0x41]\<rparr>, \<lparr>index = 1, content = Some [0x42]\<rparr>,
                        \<lparr>index = 2, content = Some [0x43::jschar]\<rparr>])"
    by simp
  have m: "mset [\<lparr>index = 2, content = Some [0x43::jschar]\<rparr>, \<lparr>index = 0, content = Some [0x41]\<rparr>,
         \<lparr>index = 1, content = Some [0x42]\<rparr>] =
   mset [\<lparr>index = 0, content = Some [0x41]\<rparr>, \<lparr>index = 1, content = Some [0x42]\<rparr>,
         \<lparr>index = 2, content = Some [0x43]\<rparr>]"
    by (simp add: add_mset_commute)
  from assemble_in_index_order [OF d m] d m show ?thesis by blast
qed

lemma next_request_simps [simp]:
  "trace (next_request s) = []" "res (next_request s) = new_response"
  "collection (next_request s) = collection s" "chunkCollection (next_request s) = chunkCollection s"
  "cachedDb (next_request s) = cachedDb s"
  by (simp_all add: next_request_def)

lemma handler_chunked_rejects:
  assumes "req_method req = ''POST''"
    and "\<not> truthy (req_pdfUrl req) \<or> \<not> truthy (req_issueNumber req)"
  shows "handler_chunked env req s =
           (Ok (), s\<lparr>res := \<lparr>statusCode = 400,
                            headers = headers (res s),
                            ended = True\<rparr>,
                    trace := trace s @ [Write (JsonError ''Missing PDF URL or Issue Number'')]\<rparr>)"
  using assms
  by (auto simp: handler_chunked_def chunked_body_def try_catch_def io_defs Let_def)

lemma handler_streaming_rejects:
  assumes "req_method req = ''POST''"
    and "\<not> truthy (req_pdfUrl req) \<or> \<not> truthy (req_issueNumber req)"
  shows "handler_streaming env req s =
           (Ok (), s\<lparr>res := \<lparr>statusCode = 400,
                            headers = headers (res s),
                            ended = True\<rparr>,
                    trace := trace s @ [Write (JsonError ''Missing PDF URL or Issue Number'')]\<rparr>)"
  using assms
  by (auto simp: handler_streaming_def streaming_body_def try_catch_def io_defs Let_def)

lemma handler_chunked_not_post:
  assumes "req_method req \<noteq> ''POST''"
  shows "handler_chunked env req s =
           (Ok (), s\<lparr>res := \<lparr>statusCode = 405,
                            headers = headers (res s),
                            ended = True\<rparr>,
                    trace := trace s @ [Write (JsonError ''Method not allowed'')]\<rparr>)"
  using assms by (simp add: handler_chunked_def io_defs)

lemma handler_streaming_not_post:
  assumes "req_method req \<noteq> ''POST''"
  shows "handler_streaming env req s =
           (Ok (), s\<lparr>res := \<lparr>statusCode = 405,
                            headers = headers (res s),
                            ended = True\<rparr>,
                    trace := trace s @ [Write (JsonError ''Method not allowed'')]\<rparr>)"
  using assms by (simp add: handler_streaming_def io_defs)

text \<open>
  Claim C10. A POST request whose \<^verbatim>\<open>pdfUrl\<close> or \<^verbatim>\<open>issueNumber\<close> is falsy is answered with
  status 400 and the error "Missing PDF URL or Issue Number", and nothing else happens: no
  connection, no cache access, no download, no Summarizer invocation, and both collections
  stay as they are. The number 0 and the empty string are falsy, so no request for the
  identity 0 (or the empty identity) is ever answered with a summary.
\<close>

theorem falsy_field_rejected:
  "(req_method req = ''POST'' \<and> (\<not> truthy (req_pdfUrl req) \<or> \<not> truthy (req_issueNumber req)) \<longrightarrow>
      serve f env req s =
        (Ok (), (next_request s)
           \<lparr>res := \<lparr>statusCode = 400, headers = [],
                    ended = True\<rparr>,
             trace := [Write (JsonError ''Missing PDF URL or Issue Number'')]\<rparr>)) \<and>
   \<not> truthy (JNum 0) \<and> \<not> truthy (JStr []) \<and>
   (req_issueNumber req = JNum 0 \<or> req_issueNumber req = JStr [] \<longrightarrow>
      summaries_sent (final f env req s) = [] \<and>
      filter is_work (trace (final f env req s)) = [] \<and>
      collection (final f env req s) = collection s \<and>
      chunkCollection (final f env req s) = chunkCollection s)"
proof -
  have reject: "serve f env req s =
              (Ok (), (next_request s)
                 \<lparr>res := \<lparr>statusCode = 400, headers = [],
                          ended = True\<rparr>,
                   trace := [Write (JsonError ''Missing PDF URL or Issue Number'')]\<rparr>)"
    if "req_method req = ''POST''" "\<not> truthy (req_pdfUrl req) \<or> \<not> truthy (req_issueNumber req)"
    using that
    by (cases f)
       (auto simp: serve_def handler_chunked_rejects handler_streaming_rejects new_response_def)
  have zero: "summaries_sent (final f env req s) = [] \<and>
            filter is_work (trace (final f env req s)) = [] \<and>
            collection (final f env req s) = collection s \<and>
            chunkCollection (final f env req s) = chunkCollection s"
    if k: "req_issueNumber req = JNum 0 \<or> req_issueNumber req = JStr []"
  proof (cases "req_method req = ''POST''")
    case True
    from k have "\<not> truthy (req_pdfUrl req) \<or> \<not> truthy (req_issueNumber req)" by auto
    from reject [OF True this] show ?thesis
      by (simp add: final_def summaries_sent_def body_def map_filter_simps)
  next
    case False
    then show ?thesis
      by (cases f)
         (auto simp: final_def serve_def handler_chunked_not_post handler_streaming_not_post
            summaries_sent_def body_def map_filter_simps)
  qed
  from reject zero show ?thesis by simp
qed

theorem falsy_field_rejected_witness:
  "req_method (post (JStr [0x75]) (JNum 0)) = ''POST'' \<and>
   \<not> truthy (req_issueNumber (post (JStr [0x75]) (JNum 0))) \<and>
   serve SummarizePdf_js (service (\<lambda>u. Inr []) (\<lambda>c i. Inr None)) (post (JStr [0x75]) (JNum 0)) empty_store =
     (Ok (), (next_request empty_store)
        \<lparr>res := \<lparr>statusCode = 400, headers = [], ended = True\<rparr>,
          trace := [Write (JsonError ''Missing PDF URL or Issue Number'')]\<rparr>) \<and>
   summaries_sent (final SummarizePdf_js (service (\<lambda>u. Inr []) (\<lambda>c i. Inr None))
                          (post (JStr [0x75]) (JNum 0)) empty_store) = []"
  using falsy_field_rejected [of "post (JStr [0x75]) (JNum 0)" SummarizePdf_js
          "service (\<lambda>u. Inr []) (\<lambda>c i. Inr None)" empty_store]
  by (simp add: post_def summaries_sent_def body_def map_filter_simps)

lemma handler_chunked_hit:
  assumes "accepted req k"
    and "connect_error env = None" and "findOne_summaries_error env = None"
    and "collection s k = Some d" and "nonempty (doc_summary d) = Some t"
  shows "handler_chunked env req s =
           (Ok (), s\<lparr>res := \<lparr>statusCode = 200,
                            headers = headers (res s),
                            ended = True\<rparr>,
                    trace := trace s @ [Connect, FindSummary k, Write (JsonSummary t)]\<rparr>)"
  using assms
  by (auto simp: accepted_def handler_chunked_def chunked_body_def try_catch_def io_defs op_defs Let_def
        existing_summary_def)

lemma handler_streaming_hit:
  assumes "accepted req k"
    and "cachedDb s \<or> connect_error env = None" and "findOne_summaries_error env = None"
    and "collection s k = Some d" and "nonempty (doc_summary d) = Some t"
  shows "handler_streaming env req s =
           (Ok (), s\<lparr>cachedDb := True,
                    res := (res s)\<lparr>headers := headers (res s) @ [(''Content-Type'', ''application/json'')],
                                   ended := True\<rparr>,
                    trace := trace s @ (if cachedDb s then [] else [Connect]) @
                             [FindSummary k, Write (JsonSummary t)]\<rparr>)"
proof -
  have c: "cachedDb s \<Longrightarrow> s\<lparr>cachedDb := True\<rparr> = s" by simp
  show ?thesis
    using assms c
    by (cases "cachedDb s")
       (auto simp: accepted_def handler_streaming_def streaming_body_def try_catch_def io_defs op_defs Let_def
          existing_summary_def)
qed

lemma hit_facts:
  assumes acc: "accepted req k"
    and db: "connect_error env = None" "findOne_summaries_error env = None"
    and hit: "collection s k = Some d" "nonempty (doc_summary d) = Some t"
  shows "fst (serve f env req s) = Ok () \<and>
         summaries_sent (final f env req s) = [t] \<and>
         errors_sent (final f env req s) = [] \<and>
         filter is_work (trace (final f env req s)) = [] \<and>
         summarizer_calls (trace (final f env req s)) = [] \<and>
         collection (final f env req s) = collection s \<and>
         chunkCollection (final f env req s) = chunkCollection s"
proof -
  show ?thesis
  proof (cases f)
    case Part_002
    then show ?thesis
      using handler_chunked_hit [of req k env "next_request s" d t] acc db hit
      by (simp add: final_def serve_def summaries_sent_def errors_sent_def body_def map_filter_simps)
  next
    case SummarizePdf_js
    then show ?thesis
      using handler_streaming_hit [of req k "next_request s" env d t] acc db hit
      by (simp add: final_def serve_def summaries_sent_def errors_sent_def body_def map_filter_simps)
  qed
qed

lemma summary_stored:
  assumes acc: "accepted req k"
    and sent: "t \<in> set (summaries_sent (final f env req s))"
  shows "\<exists>d. collection (final f env req s) k = Some d \<and> doc_summary d = Some t"
proof -
  show ?thesis
  proof (cases f)
    case Part_002
    then show ?thesis
      using handler_chunked_summary_stored [of req k "next_request s" t env] acc sent
      by (simp add: final_def serve_def)
  next
    case SummarizePdf_js
    then show ?thesis
      using handler_streaming_summary_stored [of req k "next_request s" t env] acc sent
      by (simp add: final_def serve_def new_response_def)
  qed
qed

text \<open>
  Claim C4. A request that passes validation, for an identity whose record in the Document
  Cache holds a non-empty summary, is answered with that summary unchanged; the handler
  downloads nothing, splits nothing and invokes the Summarizer for no chunk, and both
  collections stay as they are. In particular, after a first call that answered with a
  non-empty summary, a second call for the same identity is answered with the same
  summary, again with no download, split or Summarizer invocation. (The database is
  reachable: connecting and the lookup do not throw.)
\<close>

theorem cached_summary_short_circuit:
  assumes "accepted req k"
    and "connect_error env = None" and "findOne_summaries_error env = None"
  shows "(collection s k = Some d \<and> nonempty (doc_summary d) = Some t \<longrightarrow>
            fst (serve f env req s) = Ok () \<and>
            summaries_sent (final f env req s) = [t] \<and>
            errors_sent (final f env req s) = [] \<and>
            filter is_work (trace (final f env req s)) = [] \<and>
            summarizer_calls (trace (final f env req s)) = [] \<and>
            collection (final f env req s) = collection s \<and>
            chunkCollection (final f env req s) = chunkCollection s) \<and>
         (s = final f env0 req s0 \<and> t \<in> set (summaries_sent s) \<and> t \<noteq> [] \<longrightarrow>
            summaries_sent (final f env req s) = [t] \<and>
            filter is_work (trace (final f env req s)) = [] \<and>
            summarizer_calls (trace (final f env req s)) = [])"
proof (intro conjI impI)
  assume "s = final f env0 req s0 \<and> t \<in> set (summaries_sent s) \<and> t \<noteq> []"
  then have s: "s = final f env0 req s0" and t: "t \<in> set (summaries_sent (final f env0 req s0))" "t \<noteq> []"
    by blast+
  from summary_stored [OF assms(1) t(1)] s obtain d' where d': "collection s k = Some d'" "doc_summary d' = Some t"
    by auto
  with t(2) have ne: "nonempty (doc_summary d') = Some t" by (simp add: nonempty_Some)
  from hit_facts [OF assms d'(1) ne]
  show "summaries_sent (final f env req s) = [t]"
    "filter is_work (trace (final f env req s)) = []"
    "summarizer_calls (trace (final f env req s)) = []"
    by simp_all
qed (use hit_facts [OF assms] in simp_all)

lemma splitIntoChunks_empty: "0 < m \<Longrightarrow> splitIntoChunks [] m = Some [[]]"
  by (simp add: splitIntoChunks_groups groups_step)

lemma sample_accepted: "accepted sample_request (JNum 7)"
  by (simp add: accepted_def sample_request_def post_def)

lemma sample_first_call:
  "summaries_sent (final Part_002 sample_env sample_request empty_store) = [[0x53]]"
  using handler_chunked_miss_ok
          [of sample_request "JNum 7" sample_env "next_request empty_store" "[]" "[[]]"]
  by (simp add: sample_accepted splitIntoChunks_empty
        final_def serve_def summaries_sent_def body_def map_filter_simps map_filter_append
        chunk_events_def full_summary_def chunk_text_def chunk_failure_def cached_chunk_def
        existing_summary_def empty_store_def sample_env_def service_def)

theorem cached_summary_short_circuit_witness:
  "accepted sample_request (JNum 7) \<and>
   connect_error sample_env = None \<and> findOne_summaries_error sample_env = None \<and>
   collection issue_7_cached (JNum 7) = Some \<lparr>doc_pdfUrl = JStr [0x75], doc_summary = Some [0x53]\<rparr> \<and>
   nonempty (doc_summary \<lparr>doc_pdfUrl = JStr [0x75], doc_summary = Some [0x53]\<rparr>) = Some [0x53] \<and>
   summaries_sent (final SummarizePdf_js sample_env sample_request issue_7_cached) = [[0x53]] \<and>
   filter is_work (trace (final SummarizePdf_js sample_env sample_request issue_7_cached)) = [] \<and>
   collection (final SummarizePdf_js sample_env sample_request issue_7_cached) =
     collection issue_7_cached \<and>
   [0x53] \<in> set (summaries_sent (final Part_002 sample_env sample_request empty_store)) \<and>
   [0x53::jschar] \<noteq> [] \<and>
   summaries_sent (final Part_002 sample_env sample_request
                     (final Part_002 sample_env sample_request empty_store)) = [[0x53]] \<and>
   filter is_work (trace (final Part_002 sample_env sample_request
                     (final Part_002 sample_env sample_request empty_store))) = [] \<and>
   summarizer_calls (trace (final Part_002 sample_env sample_request
                     (final Part_002 sample_env sample_request empty_store))) = []"
proof -
  have db: "connect_error sample_env = None" "findOne_summaries_error sample_env = None"
    by (simp_all add: sample_env_def service_def)
  have sent: "[0x53] \<in> set (summaries_sent (final Part_002 sample_env sample_request empty_store))"
    by (simp add: sample_first_call)
  have hit: "collection issue_7_cached (JNum 7) =
               Some \<lparr>doc_pdfUrl = JStr [0x75], doc_summary = Some [0x53]\<rparr>"
    "nonempty (doc_summary \<lparr>doc_pdfUrl = JStr [0x75], doc_summary = Some [0x53]\<rparr>) = Some [0x53]"
    by (simp_all add: issue_7_cached_def)
  from cached_summary_short_circuit
      [of sample_request "JNum 7" sample_env
          "final Part_002 sample_env sample_request empty_store" _ "[0x53]" Part_002
          sample_env empty_store]
    cached_summary_short_circuit
      [OF sample_accepted db, where s = issue_7_cached and f = SummarizePdf_js and t = "[0x53]"
         and d = "\<lparr>doc_pdfUrl = JStr [0x75], doc_summary = Some [0x53]\<rparr>"]
    sample_accepted db sent hit
  show ?thesis by simp
qed

lemma written_chunk_events [simp]:
  "List.map_filter written (chunk_events env cc k chunks j) = []"
  by (simp add: chunk_events_def map_filter_simps split: option.splits)

lemma written_chunk_events_streaming [simp]:
  "List.map_filter written (chunk_events_streaming env cc k chunks j) =
     [StreamChunk j (chunk_text env cc k chunks j)]"
  by (simp add: chunk_events_streaming_def map_filter_append map_filter_simps)

lemma written_all_chunk_events:
  "List.map_filter written (concat (map (chunk_events env cc k chunks) js)) = []"
  by (induction js) (simp_all add: map_filter_append map_filter_simps)

lemma written_all_chunk_events_streaming:
  "List.map_filter written (concat (map (chunk_events_streaming env cc k chunks) js)) =
     map (\<lambda>j. StreamChunk j (chunk_text env cc k chunks j)) js"
  by (induction js) (simp_all add: map_filter_append map_filter_simps)

lemma summary_of_chunk_writes:
  "List.map_filter summary_of (map (\<lambda>j. StreamChunk j (c j)) js) = []"
  by (induction js) (simp_all add: map_filter_simps)

lemma is_error_chunk_writes:
  "filter is_error (map (\<lambda>j. StreamChunk j (c j)) js) = []"
  by (induction js) simp_all

lemma summarizer_calls_all_chunk_events:
  "summarizer_calls (concat (map (chunk_events env cc k chunks) js)) = uncached cc k js"
  by (induction js) (simp_all add: uncached_def summarizer_calls_chunk_events split: option.splits)

lemma summarizer_calls_all_chunk_events_streaming:
  "summarizer_calls (concat (map (chunk_events_streaming env cc k chunks) js)) = uncached cc k js"
  by (induction js)
     (simp_all add: uncached_def summarizer_calls_chunk_events_streaming split: option.splits)

lemma miss_ok_facts:
  assumes acc: "accepted req k"
    and db: "connect_error env = None" "findOne_summaries_error env = None"
    and miss: "existing_summary (collection s k) = None"
    and fetch: "fetchPdfText env (req_pdfUrl req) = Inr text"
    and split: "splitIntoChunks text (default_maxWords f) = Some chunks"
    and ok: "\<forall>j < length chunks. chunk_failure env (chunkCollection s) k chunks j = None"
    and store: "updateOne_summaries_error env = None"
  shows "fst (serve f env req s) = Ok () \<and>
         summaries_sent (final f env req s) = [full_summary env (chunkCollection s) k chunks] \<and>
         errors_sent (final f env req s) = [] \<and>
         summarizer_calls (trace (final f env req s)) = uncached (chunkCollection s) k [0..<length chunks] \<and>
         collection (final f env req s) = (collection s)(k \<mapsto>
           \<lparr>doc_pdfUrl = req_pdfUrl req,
            doc_summary = Some (full_summary env (chunkCollection s) k chunks)\<rparr>) \<and>
         chunkCollection (final f env req s) =
           chunks_stored env (chunkCollection s) k chunks 0 (length chunks)"
proof -
  show ?thesis
  proof (cases f)
    case a: Part_002
    show ?thesis
      using handler_chunked_miss_ok [of req k env "next_request s" "text" chunks]
        a acc db miss fetch split ok store
      by (simp add: final_def serve_def summaries_sent_def errors_sent_def body_def
            map_filter_simps map_filter_append written_all_chunk_events
            summarizer_calls_all_chunk_events)
  next
    case a: SummarizePdf_js
    show ?thesis
      using handler_streaming_miss_ok [of req "next_request s" env "text" chunks]
        a acc db miss fetch split ok store
      by (simp add: accepted_def final_def serve_def summaries_sent_def errors_sent_def body_def
            map_filter_simps map_filter_append written_all_chunk_events_streaming
            summarizer_calls_all_chunk_events_streaming summary_of_chunk_writes
            is_error_chunk_writes)
  qed
qed

lemma fail_at_facts:
  assumes acc: "accepted req k"
    and db: "connect_error env = None" "findOne_summaries_error env = None"
    and miss: "existing_summary (collection s k) = None"
    and fetch: "fetchPdfText env (req_pdfUrl req) = Inr text"
    and split: "splitIntoChunks text (default_maxWords f) = Some chunks"
    and lt: "i < length chunks"
    and ok: "\<forall>j < i. chunk_failure env (chunkCollection s) k chunks j = None"
    and bad: "chunk_failure env (chunkCollection s) k chunks i = Some (e, evs)"
  shows "fst (serve f env req s) = Ok () \<and>
         summaries_sent (final f env req s) = [] \<and>
         errors_sent (final f env req s) = [error_reply f e] \<and>
         summarizer_calls (trace (final f env req s)) =
           uncached (chunkCollection s) k [0..<i] @ summarizer_calls evs \<and>
         collection (final f env req s) = collection s \<and>
         chunkCollection (final f env req s) = chunks_stored env (chunkCollection s) k chunks 0 i"
proof -
  from bad have w: "List.map_filter written evs = []" by (rule written_chunk_failure)
  show ?thesis
  proof (cases f)
    case a: Part_002
    show ?thesis
      using handler_chunked_fails_at [of req k env "next_request s" "text" chunks i e evs]
        a acc db miss fetch split lt ok bad w
      by (simp add: final_def serve_def summaries_sent_def errors_sent_def body_def
            map_filter_simps map_filter_append written_all_chunk_events
            summarizer_calls_all_chunk_events)
  next
    case a: SummarizePdf_js
    show ?thesis
      using handler_streaming_fails_at [of req k "next_request s" env "text" chunks i e evs]
        a acc db miss fetch split lt ok bad w
      by (simp add: final_def serve_def summaries_sent_def errors_sent_def body_def
            map_filter_simps map_filter_append written_all_chunk_events_streaming
            summarizer_calls_all_chunk_events_streaming summary_of_chunk_writes
            is_error_chunk_writes)
  qed
qed

lemma calls_facts:
  assumes acc: "accepted req k"
    and fetch: "fetchPdfText env (req_pdfUrl req) = Inr text"
    and split: "splitIntoChunks text (default_maxWords f) = Some chunks"
  shows "set (summarizer_calls (trace (final f env req s))) \<subseteq>
           {j. j < length chunks \<and> cached_chunk (chunkCollection s (k, j)) = None}"
proof (cases f)
  case Part_002
  then show ?thesis
    using handler_chunked_calls [of req k env "text" chunks "next_request s"] acc fetch split
    by (simp add: final_def serve_def)
next
  case SummarizePdf_js
  then show ?thesis
    using handler_streaming_calls [of req k env "text" chunks "next_request s"] acc fetch split
    by (simp add: final_def serve_def)
qed

lemma lookup_throws_facts:
  assumes acc: "accepted req k"
    and db: "connect_error env = None" "findOne_summaries_error env = Some e"
  shows "serve f env req s =
           (Ok (), (next_request s)
              \<lparr>cachedDb := (f = SummarizePdf_js \<or> cachedDb s),
                res := \<lparr>statusCode = 500, headers = [],
                        ended = True\<rparr>,
                trace := (if f = SummarizePdf_js \<and> cachedDb s then [] else [Connect]) @
                         [FindSummary k, Write (JsonError ''Failed to summarize PDF'')]\<rparr>)"
proof (cases f)
  case Part_002
  have c: "(next_request s)\<lparr>cachedDb := cachedDb s\<rparr> = next_request s"
    by (simp add: next_request_def)
  from Part_002 acc db show ?thesis
    by (auto simp add: serve_def accepted_def handler_chunked_def chunked_body_def try_catch_def io_defs op_defs
          Let_def new_response_def next_request_def)
next
  case SummarizePdf_js
  with acc db show ?thesis
    by (cases "cachedDb s")
       (auto simp add: serve_def accepted_def handler_streaming_def streaming_body_def try_catch_def
          io_defs op_defs Let_def new_response_def next_request_def headersSent_def body_def
          map_filter_simps)
qed

lemma not_ws_a [simp]: "\<not> is_ws 0x61"
  by (simp add: is_ws_def)

lemma words_text_Cons: "\<exists>r. words_text n = 0x61 # r"
  by (cases n) simp_all

lemma split_ws_words_text: "split_ws (words_text n) = replicate (Suc n) [0x61]"
proof (induction n)
  case 0
  then show ?case by simp
next
  case (Suc n)
  obtain r where r: "words_text n = 0x61 # r" using words_text_Cons by blast
  then have "dropWhile is_ws (words_text n) = words_text n" by simp
  with Suc show ?case by simp
qed

lemma five_chunks_10000:
  "splitIntoChunks (words_text 40000) 10000 =
     Some [full_chunk 10000, full_chunk 10000, full_chunk 10000, full_chunk 10000, [0x61]]"
  by (simp add: splitIntoChunks_groups split_ws_words_text groups_step full_chunk_def)

lemma five_chunks_20000:
  "splitIntoChunks (words_text 80000) 20000 =
     Some [full_chunk 20000, full_chunk 20000, full_chunk 20000, full_chunk 20000, [0x61]]"
  by (simp add: splitIntoChunks_groups split_ws_words_text groups_step full_chunk_def)

lemma split_five_chunk_text:
  "splitIntoChunks (five_chunk_text f) (default_maxWords f) = Some (five_chunks f)"
  by (cases f) (simp_all add: five_chunk_text_def five_chunks_def five_chunks_10000 five_chunks_20000)

lemma length_five_chunks [simp]: "length (five_chunks f) = 5"
  by (simp add: five_chunks_def)

lemma all_less_5: "(\<forall>j<5::nat. P j) \<longleftrightarrow> P 0 \<and> P 1 \<and> P 2 \<and> P 3 \<and> P 4"
proof -
  have a: "j < 5 \<longleftrightarrow> j = 0 \<or> j = 1 \<or> j = 2 \<or> j = 3 \<or> j = 4" for j :: nat
    by arith
  show ?thesis unfolding a by auto
qed

lemma upt_5: "[0..<5] = [0, 1, 2, 3, 4]"
  by (simp add: upt_rec)

lemma database_up_chunk_failure:
  assumes "database_up env"
  shows "chunk_failure env cc k chunks j =
           (case cached_chunk (cc (k, j)) of
              Some t \<Rightarrow> None
            | None \<Rightarrow> (case chat_completion env (chunks ! j) j of
                         Inl e \<Rightarrow> Some (e, [FindChunk k j, Summarize j (chunks ! j)])
                       | Inr c \<Rightarrow> None))"
  using assms by (simp add: database_up_def chunk_failure_def cong: option.case_cong sum.case_cong)

text \<open>
  Claim C9. The streaming handler, for a document of \<open>n\<close> chunks that is not in the Document
  Cache, in a run in which nothing throws, writes: the opening record carrying the total
  chunk count \<open>n\<close>; then one record per chunk, carrying the index and the summary text of
  the chunk, in ascending order of index from 0 to \<open>n - 1\<close>; then the key of the summary,
  the complete assembled summary, and the closing brace. The trace shows when each record
  is written: the record of chunk \<open>j\<close> is the last event of the iteration for chunk \<open>j\<close>,
  after its lookup (and its summarization and storing, when it was not cached) and before
  the lookup of chunk \<open>j + 1\<close>.
\<close>

theorem streaming_event_sequence:
  assumes "accepted req k"
    and "cachedDb s \<or> connect_error env = None"
    and "findOne_summaries_error env = None"
    and "existing_summary (collection s k) = None"
    and "fetchPdfText env (req_pdfUrl req) = Inr text"
    and "splitIntoChunks text 20000 = Some chunks"
    and "\<forall>j < length chunks. chunk_failure env (chunkCollection s) k chunks j = None"
    and "updateOne_summaries_error env = None"
  shows "fst (serve SummarizePdf_js env req s) = Ok () \<and>
         ended (res (final SummarizePdf_js env req s)) \<and>
         body (final SummarizePdf_js env req s) =
           StreamOpen (length chunks) #
           map (\<lambda>j. StreamChunk j (chunk_text env (chunkCollection s) k chunks j)) [0..<length chunks] @
           [StreamSummaryKey, StreamSummary (full_summary env (chunkCollection s) k chunks), StreamClose] \<and>
         trace (final SummarizePdf_js env req s) =
           (if cachedDb s then [] else [Connect]) @
           [FindSummary k, Fetch (req_pdfUrl req), Split, Write (StreamOpen (length chunks))] @
           concat (map (chunk_events_streaming env (chunkCollection s) k chunks) [0..<length chunks]) @
           [Write StreamSummaryKey,
            UpdateSummary k (req_pdfUrl req) (full_summary env (chunkCollection s) k chunks),
            Write (StreamSummary (full_summary env (chunkCollection s) k chunks)),
            Write StreamClose]"
  using handler_streaming_miss_ok [of req "next_request s" env "text" chunks] assms
  by (simp add: accepted_def final_def serve_def body_def map_filter_simps map_filter_append
        written_all_chunk_events_streaming)

theorem streaming_event_sequence_witness:
  "accepted sample_request (JNum 7) \<and>
   (cachedDb empty_store \<or> connect_error (steady_env SummarizePdf_js) = None) \<and>
   findOne_summaries_error (steady_env SummarizePdf_js) = None \<and>
   existing_summary (collection empty_store (JNum 7)) = None \<and>
   fetchPdfText (steady_env SummarizePdf_js) (req_pdfUrl sample_request) =
     Inr (five_chunk_text SummarizePdf_js) \<and>
   splitIntoChunks (five_chunk_text SummarizePdf_js) 20000 = Some (five_chunks SummarizePdf_js) \<and>
   length (five_chunks SummarizePdf_js) = 5 \<and>
   chunk_failure (steady_env SummarizePdf_js) (chunkCollection empty_store) (JNum 7)
     (five_chunks SummarizePdf_js) 0 = None \<and>
   chunk_failure (steady_env SummarizePdf_js) (chunkCollection empty_store) (JNum 7)
     (five_chunks SummarizePdf_js) 1 = None \<and>
   chunk_failure (steady_env SummarizePdf_js) (chunkCollection empty_store) (JNum 7)
     (five_chunks SummarizePdf_js) 2 = None \<and>
   chunk_failure (steady_env SummarizePdf_js) (chunkCollection empty_store) (JNum 7)
     (five_chunks SummarizePdf_js) 3 = None \<and>
   chunk_failure (steady_env SummarizePdf_js) (chunkCollection empty_store) (JNum 7)
     (five_chunks SummarizePdf_js) 4 = None \<and>
   updateOne_summaries_error (steady_env SummarizePdf_js) = None \<and>
   body (final SummarizePdf_js (steady_env SummarizePdf_js) sample_request empty_store) =
     [StreamOpen 5, StreamChunk 0 (Some [0x53]), StreamChunk 1 (Some [0x53]),
      StreamChunk 2 (Some [0x53]), StreamChunk 3 (Some [0x53]), StreamChunk 4 (Some [0x53]),
      StreamSummaryKey,
      StreamSummary [0x53, 0x0A, 0x0A, 0x53, 0x0A, 0x0A, 0x53, 0x0A, 0x0A, 0x53, 0x0A, 0x0A, 0x53],
      StreamClose]"
proof -
  have split: "splitIntoChunks (five_chunk_text SummarizePdf_js) 20000 = Some (five_chunks SummarizePdf_js)"
    using split_five_chunk_text [of SummarizePdf_js] by simp
  have env: "connect_error (steady_env SummarizePdf_js) = None"
    "findOne_summaries_error (steady_env SummarizePdf_js) = None"
    "updateOne_summaries_error (steady_env SummarizePdf_js) = None"
    "fetchPdfText (steady_env SummarizePdf_js) (req_pdfUrl sample_request) =
       Inr (five_chunk_text SummarizePdf_js)"
    by (simp_all add: steady_env_def service_def)
  have miss: "existing_summary (collection empty_store (JNum 7)) = None"
    by (simp add: empty_store_def existing_summary_def)
  have ok: "\<forall>j < length (five_chunks SummarizePdf_js).
      chunk_failure (steady_env SummarizePdf_js) (chunkCollection empty_store) (JNum 7)
        (five_chunks SummarizePdf_js) j = None"
    by (simp add: chunk_failure_def steady_env_def service_def empty_store_def cached_chunk_def)
  have ct: "chunk_text (steady_env SummarizePdf_js) (chunkCollection empty_store) (JNum 7)
                (five_chunks SummarizePdf_js) j = Some [0x53]" for j
    by (simp add: chunk_text_def steady_env_def service_def empty_store_def cached_chunk_def)
  from streaming_event_sequence [OF sample_accepted disjI2 [OF env(1)] env(2) miss env(4) split ok env(3)]
  have "body (final SummarizePdf_js (steady_env SummarizePdf_js) sample_request empty_store) =
     [StreamOpen 5, StreamChunk 0 (Some [0x53]), StreamChunk 1 (Some [0x53]),
      StreamChunk 2 (Some [0x53]), StreamChunk 3 (Some [0x53]), StreamChunk 4 (Some [0x53]),
      StreamSummaryKey,
      StreamSummary [0x53, 0x0A, 0x0A, 0x53, 0x0A, 0x0A, 0x53, 0x0A, 0x0A, 0x53, 0x0A, 0x0A, 0x53],
      StreamClose]"
    by (simp add: upt_5 ct full_summary_def)
  moreover have "chunk_failure (steady_env SummarizePdf_js) (chunkCollection empty_store) (JNum 7)
      (five_chunks SummarizePdf_js) j = None" for j
    by (simp add: chunk_failure_def steady_env_def service_def empty_store_def cached_chunk_def)
  ultimately show ?thesis using sample_accepted env miss split by simp
qed

text \<open>
  Claim C5. A request that passes validation, for a document that is not in the Document
  Cache and splits into 5 chunks, with a non-empty summary for chunk 2 in the Chunk Cache
  and none for the chunks 0, 1, 3 and 4, in a run in which the database does not throw and
  the Summarizer answers: the Summarizer is invoked for exactly the chunks 0, 1, 3 and 4, in
  this order, and the summary sent (and stored in the Document Cache) is the join, in index
  order, of the two new summaries, the cached summary of chunk 2 and the other two new
  summaries.
\<close>

theorem chunk_2_cached_of_5:
  assumes "accepted req k" and "database_up env"
    and "existing_summary (collection s k) = None"
    and "fetchPdfText env (req_pdfUrl req) = Inr text"
    and "splitIntoChunks text (default_maxWords f) = Some chunks"
    and "length chunks = 5"
    and "cached_chunk (chunkCollection s (k, 2)) = Some t2"
    and "cached_chunk (chunkCollection s (k, 0)) = None"
    and "cached_chunk (chunkCollection s (k, 1)) = None"
    and "cached_chunk (chunkCollection s (k, 3)) = None"
    and "cached_chunk (chunkCollection s (k, 4)) = None"
    and "chat_completion env (chunks ! 0) 0 = Inr c0"
    and "chat_completion env (chunks ! 1) 1 = Inr c1"
    and "chat_completion env (chunks ! 3) 3 = Inr c3"
    and "chat_completion env (chunks ! 4) 4 = Inr c4"
  shows "fst (serve f env req s) = Ok () \<and>
         summarizer_calls (trace (final f env req s)) = [0, 1, 3, 4] \<and>
         summaries_sent (final f env req s) =
           [js_join [0x0A, 0x0A] [text_of c0, text_of c1, t2, text_of c3, text_of c4]] \<and>
         errors_sent (final f env req s) = [] \<and>
         collection (final f env req s) k =
           Some \<lparr>doc_pdfUrl = req_pdfUrl req,
                 doc_summary = Some (js_join [0x0A, 0x0A] [text_of c0, text_of c1, t2, text_of c3, text_of c4])\<rparr> \<and>
         chunkCollection (final f env req s) (k, 2) = chunkCollection s (k, 2)"
proof -
  have db: "connect_error env = None" "findOne_summaries_error env = None"
    "updateOne_summaries_error env = None"
    using assms(2) by (simp_all add: database_up_def)
  have ok: "\<forall>j < length chunks. chunk_failure env (chunkCollection s) k chunks j = None"
    using assms by (simp add: all_less_5 database_up_chunk_failure)
  have full: "full_summary env (chunkCollection s) k chunks =
                js_join [0x0A, 0x0A] [text_of c0, text_of c1, t2, text_of c3, text_of c4]"
    using assms by (simp add: full_summary_def upt_5 chunk_text_def)
  have calls: "uncached (chunkCollection s) k [0..<length chunks] = [0, 1, 3, 4]"
    using assms by (simp add: uncached_def upt_5)
  have kept: "chunks_stored env (chunkCollection s) k chunks 0 (length chunks) (k, 2) = chunkCollection s (k, 2)"
    using assms by (simp add: chunks_stored_def)
  from miss_ok_facts [OF assms(1) db(1,2) assms(3,4,5) ok db(3)] full calls kept
  show ?thesis by simp
qed

theorem chunk_2_cached_of_5_witness:
  "accepted sample_request (JNum 7) \<and> database_up (steady_env Part_002) \<and>
   existing_summary (collection chunk_2_cached (JNum 7)) = None \<and>
   fetchPdfText (steady_env Part_002) (req_pdfUrl sample_request) = Inr (five_chunk_text Part_002) \<and>
   splitIntoChunks (five_chunk_text Part_002) (default_maxWords Part_002) = Some (five_chunks Part_002) \<and>
   length (five_chunks Part_002) = 5 \<and>
   cached_chunk (chunkCollection chunk_2_cached (JNum 7, 2)) = Some [0x43] \<and>
   cached_chunk (chunkCollection chunk_2_cached (JNum 7, 0)) = None \<and>
   cached_chunk (chunkCollection chunk_2_cached (JNum 7, 1)) = None \<and>
   cached_chunk (chunkCollection chunk_2_cached (JNum 7, 3)) = None \<and>
   cached_chunk (chunkCollection chunk_2_cached (JNum 7, 4)) = None \<and>
   chat_completion (steady_env Part_002) (five_chunks Part_002 ! 0) 0 = Inr (Some [0x53]) \<and>
   chat_completion (steady_env Part_002) (five_chunks Part_002 ! 1) 1 = Inr (Some [0x53]) \<and>
   chat_completion (steady_env Part_002) (five_chunks Part_002 ! 3) 3 = Inr (Some [0x53]) \<and>
   chat_completion (steady_env Part_002) (five_chunks Part_002 ! 4) 4 = Inr (Some [0x53]) \<and>
   summarizer_calls (trace (final Part_002 (steady_env Part_002) sample_request chunk_2_cached)) =
     [0, 1, 3, 4] \<and>
   summaries_sent (final Part_002 (steady_env Part_002) sample_request chunk_2_cached) =
     [[0x53, 0x0A, 0x0A, 0x53, 0x0A, 0x0A, 0x43, 0x0A, 0x0A, 0x53, 0x0A, 0x0A, 0x53]]"
proof -
  have up: "database_up (steady_env Part_002)"
    by (simp add: database_up_def steady_env_def service_def)
  have miss: "existing_summary (collection chunk_2_cached (JNum 7)) = None"
    by (simp add: chunk_2_cached_def empty_store_def existing_summary_def)
  have fetch: "fetchPdfText (steady_env Part_002) (req_pdfUrl sample_request) = Inr (five_chunk_text Part_002)"
    by (simp add: steady_env_def service_def)
  have c2: "cached_chunk (chunkCollection chunk_2_cached (JNum 7, 2)) = Some [0x43]"
    by (simp add: chunk_2_cached_def cached_chunk_def)
  have other: "j \<noteq> 2 \<Longrightarrow> cached_chunk (chunkCollection chunk_2_cached (JNum 7, j)) = None" for j
    by (simp add: chunk_2_cached_def empty_store_def cached_chunk_def)
  have answer: "chat_completion (steady_env Part_002) c j = Inr (Some [0x53])" for c j
    by (simp add: steady_env_def service_def)
  from chunk_2_cached_of_5 [OF sample_accepted up miss fetch split_five_chunk_text length_five_chunks
      c2 other other other other answer answer answer answer]
    sample_accepted up miss fetch split_five_chunk_text [of Part_002] c2 other answer
  show ?thesis by simp
qed

lemma all_less_3: "(\<forall>j<3::nat. P j) \<longleftrightarrow> P 0 \<and> P 1 \<and> P 2"
proof -
  have a: "j < 3 \<longleftrightarrow> j = 0 \<or> j = 1 \<or> j = 2" for j :: nat
    by arith
  show ?thesis unfolding a by auto
qed

lemma upt_3: "[0..<3] = [0, 1, 2]"
  by (simp add: upt_rec)

lemma less_5_cases: "j < 5 \<Longrightarrow> j = 0 \<or> j = 1 \<or> j = 2 \<or> j = 3 \<or> j = (4::nat)"
  by arith

text \<open>The first run of the scenario: the Summarizer throws on chunk 3 of 5, nothing cached.\<close>

lemma first_run_fails_at_3:
  assumes acc: "accepted req k" and up: "database_up env"
    and miss: "existing_summary (collection s k) = None"
    and fetch: "fetchPdfText env (req_pdfUrl req) = Inr text"
    and split: "splitIntoChunks text (default_maxWords f) = Some chunks"
    and len: "length chunks = 5"
    and none: "\<forall>j < 5. cached_chunk (chunkCollection s (k, j)) = None"
    and c0: "chat_completion env (chunks ! 0) 0 = Inr c0"
    and c1: "chat_completion env (chunks ! 1) 1 = Inr c1"
    and c2: "chat_completion env (chunks ! 2) 2 = Inr c2"
    and c3: "chat_completion env (chunks ! 3) 3 = Inl e"
  shows "fst (serve f env req s) = Ok () \<and>
         summaries_sent (final f env req s) = [] \<and>
         errors_sent (final f env req s) = [error_reply f e] \<and>
         summarizer_calls (trace (final f env req s)) = [0, 1, 2, 3] \<and>
         collection (final f env req s) = collection s \<and>
         chunkCollection (final f env req s) (k, 0) = Some c0 \<and>
         chunkCollection (final f env req s) (k, 1) = Some c1 \<and>
         chunkCollection (final f env req s) (k, 2) = Some c2 \<and>
         chunkCollection (final f env req s) (k, 3) = chunkCollection s (k, 3) \<and>
         chunkCollection (final f env req s) (k, 4) = chunkCollection s (k, 4)"
proof -
  have db: "connect_error env = None" "findOne_summaries_error env = None"
    using up by (simp_all add: database_up_def)
  from none have n: "cached_chunk (chunkCollection s (k, 0)) = None"
    "cached_chunk (chunkCollection s (k, 1)) = None" "cached_chunk (chunkCollection s (k, 2)) = None"
    "cached_chunk (chunkCollection s (k, 3)) = None" "cached_chunk (chunkCollection s (k, 4)) = None"
    by (simp_all add: all_less_5)
  have ok: "\<forall>j < 3. chunk_failure env (chunkCollection s) k chunks j = None"
    using n c0 c1 c2 by (simp add: all_less_3 database_up_chunk_failure [OF up])
  have bad: "chunk_failure env (chunkCollection s) k chunks 3 =
               Some (e, [FindChunk k 3, Summarize 3 (chunks ! 3)])"
    using n c3 by (simp add: database_up_chunk_failure [OF up])
  have lt: "3 < length chunks" using len by simp
  have calls: "uncached (chunkCollection s) k [0..<3] = [0, 1, 2]"
    using n by (simp add: uncached_def upt_3)
  have stored: "chunks_stored env (chunkCollection s) k chunks 0 3 (k, 0) = Some c0"
    "chunks_stored env (chunkCollection s) k chunks 0 3 (k, 1) = Some c1"
    "chunks_stored env (chunkCollection s) k chunks 0 3 (k, 2) = Some c2"
    "chunks_stored env (chunkCollection s) k chunks 0 3 (k, 3) = chunkCollection s (k, 3)"
    "chunks_stored env (chunkCollection s) k chunks 0 3 (k, 4) = chunkCollection s (k, 4)"
    using n c0 c1 c2 by (simp_all add: chunks_stored_def chunk_text_def)
  from fail_at_facts [OF acc db miss fetch split lt ok bad] calls stored
  show ?thesis by simp
qed

lemma retry_calls:
  assumes acc: "accepted req k" and up: "database_up env'"
    and miss: "existing_summary (collection s1 k) = None"
    and fetch: "fetchPdfText env' (req_pdfUrl req) = Inr text"
    and split: "splitIntoChunks text (default_maxWords f) = Some chunks"
    and len: "length chunks = 5"
    and c: "chat_completion env' (chunks ! 0) 0 = Inr r0" "chat_completion env' (chunks ! 1) 1 = Inr r1"
      "chat_completion env' (chunks ! 2) 2 = Inr r2" "chat_completion env' (chunks ! 3) 3 = Inr r3"
      "chat_completion env' (chunks ! 4) 4 = Inr r4"
  shows "summarizer_calls (trace (final f env' req s1)) = uncached (chunkCollection s1) k [0, 1, 2, 3, 4]"
proof -
  have db: "connect_error env' = None" "findOne_summaries_error env' = None"
    "updateOne_summaries_error env' = None"
    using up by (simp_all add: database_up_def)
  have ok: "\<forall>j < length chunks. chunk_failure env' (chunkCollection s1) k chunks j = None"
    using len c by (simp add: all_less_5 database_up_chunk_failure [OF up] split: option.splits)
  from miss_ok_facts [OF acc db(1,2) miss fetch split ok db(3)] len
  show ?thesis by (simp add: upt_5)
qed

text \<open>
  Claim C7, amended. A document of 5 chunks, none cached and not in the Document Cache; the
  database does not throw; the Summarizer returns non-empty summaries for the chunks 0, 1
  and 2 and throws on chunk 3. Then the request ends with the handler's error response and
  no summary, the three summaries are in the Chunk Cache, the Document Cache is unchanged,
  and a retry with the same document invokes the Summarizer for no chunk other than 3 and
  4 (exactly for 3 and 4 when nothing throws, and then the summary is the join of the three
  cached and the two new summaries). The non-emptiness is needed: an empty or null
  completion is stored, but the lookup treats it as absent.
\<close>

theorem failure_at_chunk_3_of_5:
  assumes "accepted req k" and "database_up env"
    and "existing_summary (collection s k) = None"
    and "fetchPdfText env (req_pdfUrl req) = Inr text"
    and "fetchPdfText env' (req_pdfUrl req) = Inr text"
    and "splitIntoChunks text (default_maxWords f) = Some chunks"
    and "length chunks = 5"
    and "\<forall>j < 5. cached_chunk (chunkCollection s (k, j)) = None"
    and "chat_completion env (chunks ! 0) 0 = Inr (Some t0)" and "t0 \<noteq> []"
    and "chat_completion env (chunks ! 1) 1 = Inr (Some t1)" and "t1 \<noteq> []"
    and "chat_completion env (chunks ! 2) 2 = Inr (Some t2)" and "t2 \<noteq> []"
    and "chat_completion env (chunks ! 3) 3 = Inl e"
  shows "fst (serve f env req s) = Ok () \<and>
         errors_sent (final f env req s) = [error_reply f e] \<and>
         summaries_sent (final f env req s) = [] \<and>
         summarizer_calls (trace (final f env req s)) = [0, 1, 2, 3] \<and>
         chunkCollection (final f env req s) (k, 0) = Some (Some t0) \<and>
         chunkCollection (final f env req s) (k, 1) = Some (Some t1) \<and>
         chunkCollection (final f env req s) (k, 2) = Some (Some t2) \<and>
         collection (final f env req s) = collection s \<and>
         set (summarizer_calls (trace (final f env' req (final f env req s)))) \<subseteq> {3, 4} \<and>
         (database_up env' \<and> chat_completion env' (chunks ! 3) 3 = Inr c3 \<and>
          chat_completion env' (chunks ! 4) 4 = Inr c4 \<longrightarrow>
            summarizer_calls (trace (final f env' req (final f env req s))) = [3, 4] \<and>
            summaries_sent (final f env' req (final f env req s)) =
              [js_join [0x0A, 0x0A] [t0, t1, t2, text_of c3, text_of c4]])"
proof -
  let ?s1 = "final f env req s"
  note first = first_run_fails_at_3 [OF assms(1,2,3,4,6,7,8,9,11,13,15)]
  from assms(8) have n: "cached_chunk (chunkCollection s (k, 3)) = None"
    "cached_chunk (chunkCollection s (k, 4)) = None"
    by (simp_all add: all_less_5)
  have cached: "cached_chunk (chunkCollection ?s1 (k, 0)) = Some t0"
    "cached_chunk (chunkCollection ?s1 (k, 1)) = Some t1"
    "cached_chunk (chunkCollection ?s1 (k, 2)) = Some t2"
    "cached_chunk (chunkCollection ?s1 (k, 3)) = None"
    "cached_chunk (chunkCollection ?s1 (k, 4)) = None"
    using first assms(10,12,14) n by (simp_all add: cached_chunk_def)
  have sub: "set (summarizer_calls (trace (final f env' req ?s1))) \<subseteq> {3, 4}"
  proof
    fix j assume "j \<in> set (summarizer_calls (trace (final f env' req ?s1)))"
    with calls_facts [OF assms(1,5,6), of ?s1] assms(7)
    have j: "j < 5" "cached_chunk (chunkCollection ?s1 (k, j)) = None" by auto
    from less_5_cases [OF j(1)] j(2) cached show "j \<in> {3, 4}" by auto
  qed
  have retry: "summarizer_calls (trace (final f env' req ?s1)) = [3, 4] \<and>
            summaries_sent (final f env' req ?s1) =
              [js_join [0x0A, 0x0A] [t0, t1, t2, text_of c3, text_of c4]]"
    if up: "database_up env'" and c3: "chat_completion env' (chunks ! 3) 3 = Inr c3"
      and c4: "chat_completion env' (chunks ! 4) 4 = Inr c4"
  proof -
    have ok: "\<forall>j < length chunks. chunk_failure env' (chunkCollection ?s1) k chunks j = None"
      using assms(7) cached c3 c4 by (simp add: all_less_5 database_up_chunk_failure [OF up])
    have db: "connect_error env' = None" "findOne_summaries_error env' = None"
      "updateOne_summaries_error env' = None"
      using up by (simp_all add: database_up_def)
    have miss: "existing_summary (collection ?s1 k) = None"
      using first assms(3) by simp
    have calls: "uncached (chunkCollection ?s1) k [0..<length chunks] = [3, 4]"
      using assms(7) cached by (simp add: uncached_def upt_5)
    have full: "full_summary env' (chunkCollection ?s1) k chunks =
           js_join [0x0A, 0x0A] [t0, t1, t2, text_of c3, text_of c4]"
      using assms(7) cached c3 c4 by (simp add: full_summary_def upt_5 chunk_text_def)
    from miss_ok_facts [OF assms(1) db(1,2) miss assms(5,6) ok db(3)] calls full
    show ?thesis by simp
  qed
  from first sub retry show ?thesis by simp
qed

lemma steady_env_facts:
  "database_up (steady_env f)"
  "fetchPdfText (steady_env f) url = Inr (five_chunk_text f)"
  "chat_completion (steady_env f) c j = Inr (Some [0x53])"
  by (simp_all add: database_up_def steady_env_def service_def)

lemma failing_env_facts:
  "database_up (failing_env f)"
  "fetchPdfText (failing_env f) url = Inr (five_chunk_text f)"
  by (simp_all add: database_up_def failing_env_def service_def)

lemma blank_answer_env_facts:
  "database_up (blank_answer_env f)"
  "fetchPdfText (blank_answer_env f) url = Inr (five_chunk_text f)"
  by (simp_all add: database_up_def blank_answer_env_def service_def)

lemma empty_store_facts:
  "existing_summary (collection empty_store k) = None"
  "cached_chunk (chunkCollection empty_store (k, j)) = None"
  by (simp_all add: empty_store_def existing_summary_def cached_chunk_def)

theorem failure_at_chunk_3_of_5_witness:
  "accepted sample_request (JNum 7) \<and> database_up (failing_env SummarizePdf_js) \<and>
   existing_summary (collection empty_store (JNum 7)) = None \<and>
   fetchPdfText (failing_env SummarizePdf_js) (req_pdfUrl sample_request) =
     Inr (five_chunk_text SummarizePdf_js) \<and>
   fetchPdfText (steady_env SummarizePdf_js) (req_pdfUrl sample_request) =
     Inr (five_chunk_text SummarizePdf_js) \<and>
   splitIntoChunks (five_chunk_text SummarizePdf_js) (default_maxWords SummarizePdf_js) =
     Some (five_chunks SummarizePdf_js) \<and>
   length (five_chunks SummarizePdf_js) = 5 \<and>
   cached_chunk (chunkCollection empty_store (JNum 7, 0)) = None \<and>
   cached_chunk (chunkCollection empty_store (JNum 7, 1)) = None \<and>
   cached_chunk (chunkCollection empty_store (JNum 7, 2)) = None \<and>
   cached_chunk (chunkCollection empty_store (JNum 7, 3)) = None \<and>
   cached_chunk (chunkCollection empty_store (JNum 7, 4)) = None \<and>
   chat_completion (failing_env SummarizePdf_js) (five_chunks SummarizePdf_js ! 0) 0 = Inr (Some [0x53]) \<and>
   chat_completion (failing_env SummarizePdf_js) (five_chunks SummarizePdf_js ! 1) 1 = Inr (Some [0x53]) \<and>
   chat_completion (failing_env SummarizePdf_js) (five_chunks SummarizePdf_js ! 2) 2 = Inr (Some [0x53]) \<and>
   [0x53::jschar] \<noteq> [] \<and>
   chat_completion (failing_env SummarizePdf_js) (five_chunks SummarizePdf_js ! 3) 3 = Inl (Error [0x21]) \<and>
   database_up (steady_env SummarizePdf_js) \<and>
   chat_completion (steady_env SummarizePdf_js) (five_chunks SummarizePdf_js ! 3) 3 = Inr (Some [0x53]) \<and>
   chat_completion (steady_env SummarizePdf_js) (five_chunks SummarizePdf_js ! 4) 4 = Inr (Some [0x53]) \<and>
   errors_sent (final SummarizePdf_js (failing_env SummarizePdf_js) sample_request empty_store) =
     [StreamError [0x21]] \<and>
   summarizer_calls (trace (final SummarizePdf_js (failing_env SummarizePdf_js) sample_request empty_store)) =
     [0, 1, 2, 3] \<and>
   collection (final SummarizePdf_js (failing_env SummarizePdf_js) sample_request empty_store) =
     collection empty_store \<and>
   summarizer_calls (trace (final SummarizePdf_js (steady_env SummarizePdf_js) sample_request
     (final SummarizePdf_js (failing_env SummarizePdf_js) sample_request empty_store))) = [3, 4] \<and>
   summaries_sent (final SummarizePdf_js (steady_env SummarizePdf_js) sample_request
     (final SummarizePdf_js (failing_env SummarizePdf_js) sample_request empty_store)) =
     [[0x53, 0x0A, 0x0A, 0x53, 0x0A, 0x0A, 0x53, 0x0A, 0x0A, 0x53, 0x0A, 0x0A, 0x53]]"
proof -
  have none: "\<forall>j < 5. cached_chunk (chunkCollection empty_store (JNum 7, j)) = None"
    by (simp add: empty_store_facts)
  have ans: "chat_completion (failing_env SummarizePdf_js) (five_chunks SummarizePdf_js ! 0) 0 = Inr (Some [0x53])"
    "chat_completion (failing_env SummarizePdf_js) (five_chunks SummarizePdf_js ! 1) 1 = Inr (Some [0x53])"
    "chat_completion (failing_env SummarizePdf_js) (five_chunks SummarizePdf_js ! 2) 2 = Inr (Some [0x53])"
    "chat_completion (failing_env SummarizePdf_js) (five_chunks SummarizePdf_js ! 3) 3 = Inl (Error [0x21])"
    by (simp_all add: failing_env_def service_def)
  have ne: "[0x53::jschar] \<noteq> []" by simp
  from failure_at_chunk_3_of_5 [OF sample_accepted failing_env_facts(1) empty_store_facts(1)
      failing_env_facts(2) steady_env_facts(2) split_five_chunk_text length_five_chunks none ans(1) ne ans(2) ne ans(3) ne ans(4),
      of "Some [0x53]" "Some [0x53]"]
    sample_accepted steady_env_facts failing_env_facts empty_store_facts
    split_five_chunk_text [of SummarizePdf_js] ans
  show ?thesis by simp
qed

text \<open>
  Claim C7 as stated fails: the completion for chunk 0 is the empty string, the Summarizer
  throws on chunk 3, and the retry invokes the Summarizer for the chunks 0, 3 and 4.
\<close>

theorem empty_summary_not_reused_counterexample:
  "accepted sample_request (JNum 7) \<and> database_up (blank_answer_env Part_002) \<and>
   splitIntoChunks (five_chunk_text Part_002) (default_maxWords Part_002) = Some (five_chunks Part_002) \<and>
   length (five_chunks Part_002) = 5 \<and>
   chat_completion (blank_answer_env Part_002) (five_chunks Part_002 ! 0) 0 = Inr (Some []) \<and>
   chat_completion (blank_answer_env Part_002) (five_chunks Part_002 ! 3) 3 = Inl (Error [0x21]) \<and>
   errors_sent (final Part_002 (blank_answer_env Part_002) sample_request empty_store) =
     [JsonError ''Failed to summarize PDF''] \<and>
   summarizer_calls (trace (final Part_002 (blank_answer_env Part_002) sample_request empty_store)) =
     [0, 1, 2, 3] \<and>
   chunkCollection (final Part_002 (blank_answer_env Part_002) sample_request empty_store) (JNum 7, 0) =
     Some (Some []) \<and>
   summarizer_calls (trace (final Part_002 (steady_env Part_002) sample_request
     (final Part_002 (blank_answer_env Part_002) sample_request empty_store))) = [0, 3, 4]"
proof -
  let ?s1 = "final Part_002 (blank_answer_env Part_002) sample_request empty_store"
  have none: "\<forall>j < 5. cached_chunk (chunkCollection empty_store (JNum 7, j)) = None"
    by (simp add: empty_store_facts)
  have ans: "chat_completion (blank_answer_env Part_002) (five_chunks Part_002 ! 0) 0 = Inr (Some [])"
    "chat_completion (blank_answer_env Part_002) (five_chunks Part_002 ! 1) 1 = Inr (Some [0x53])"
    "chat_completion (blank_answer_env Part_002) (five_chunks Part_002 ! 2) 2 = Inr (Some [0x53])"
    "chat_completion (blank_answer_env Part_002) (five_chunks Part_002 ! 3) 3 = Inl (Error [0x21])"
    by (simp_all add: blank_answer_env_def service_def)
  note first = first_run_fails_at_3 [OF sample_accepted blank_answer_env_facts(1) empty_store_facts(1)
      blank_answer_env_facts(2)
      split_five_chunk_text length_five_chunks none ans]
  have miss: "existing_summary (collection ?s1 (JNum 7)) = None"
    using first by (simp add: empty_store_facts)
  have "summarizer_calls (trace (final Part_002 (steady_env Part_002) sample_request ?s1)) =
          uncached (chunkCollection ?s1) (JNum 7) [0, 1, 2, 3, 4]"
    by (rule retry_calls [OF sample_accepted steady_env_facts(1) miss steady_env_facts(2)
          split_five_chunk_text length_five_chunks steady_env_facts(3) steady_env_facts(3)
          steady_env_facts(3) steady_env_facts(3) steady_env_facts(3)])
  also have "\<dots> = [0, 3, 4]"
    using first by (simp add: uncached_def cached_chunk_def empty_store_def)
  finally have retry: "summarizer_calls (trace (final Part_002 (steady_env Part_002) sample_request ?s1)) =
          [0, 3, 4]" .
  from first retry sample_accepted blank_answer_env_facts(1) split_five_chunk_text [of Part_002] ans
  show ?thesis by simp
qed

lemma lookup_throws_projections:
  assumes acc: "accepted req k"
    and db: "connect_error env = None" "findOne_summaries_error env = Some e"
  shows "fst (serve f env req s) = Ok () \<and>
         statusCode (res (final f env req s)) = 500 \<and>
         errors_sent (final f env req s) = [JsonError ''Failed to summarize PDF''] \<and>
         summaries_sent (final f env req s) = [] \<and>
         filter is_work (trace (final f env req s)) = [] \<and>
         collection (final f env req s) = collection s \<and>
         chunkCollection (final f env req s) = chunkCollection s"
  using lookup_throws_facts [OF acc db, where f = f and s = s]
  by (simp add: final_def errors_sent_def summaries_sent_def body_def map_filter_simps)

text \<open>
  Claim C8, amended. A failing cache read is not treated as a miss: the error reaches the
  catch block of the handler and the request fails. When the lookup in the Document Cache
  throws, the response is status 500 with "Failed to summarize PDF", nothing is downloaded,
  split or summarized, and both collections stay as they are. When the lookup of chunk \<open>i\<close>
  in the Chunk Cache throws (the chunks before it went through), the response is the
  handler's error response (status 500 for part_002; for the streaming handler, whose
  headers are sent by then, the trailing error record with the message of the error), no
  summary is sent, chunk \<open>i\<close> is not summarized and the Document Cache is not written.
\<close>

theorem cache_read_failure_fails_request:
  assumes "accepted req k" and "connect_error env = None"
  shows "(findOne_summaries_error env = Some e \<longrightarrow>
            fst (serve f env req s) = Ok () \<and>
            statusCode (res (final f env req s)) = 500 \<and>
            errors_sent (final f env req s) = [JsonError ''Failed to summarize PDF''] \<and>
            summaries_sent (final f env req s) = [] \<and>
            filter is_work (trace (final f env req s)) = [] \<and>
            collection (final f env req s) = collection s \<and>
            chunkCollection (final f env req s) = chunkCollection s) \<and>
         (findOne_summaries_error env = None \<and> existing_summary (collection s k) = None \<and>
          fetchPdfText env (req_pdfUrl req) = Inr text \<and>
          splitIntoChunks text (default_maxWords f) = Some chunks \<and> i < length chunks \<and>
          (\<forall>j < i. chunk_failure env (chunkCollection s) k chunks j = None) \<and>
          findOne_chunk_error env i = Some e \<longrightarrow>
            fst (serve f env req s) = Ok () \<and>
            errors_sent (final f env req s) = [error_reply f e] \<and>
            summaries_sent (final f env req s) = [] \<and>
            summarizer_calls (trace (final f env req s)) = uncached (chunkCollection s) k [0..<i] \<and>
            i \<notin> set (summarizer_calls (trace (final f env req s))) \<and>
            collection (final f env req s) = collection s)"
proof (intro conjI impI)
  assume a: "findOne_summaries_error env = None \<and> existing_summary (collection s k) = None \<and>
          fetchPdfText env (req_pdfUrl req) = Inr text \<and>
          splitIntoChunks text (default_maxWords f) = Some chunks \<and> i < length chunks \<and>
          (\<forall>j < i. chunk_failure env (chunkCollection s) k chunks j = None) \<and>
          findOne_chunk_error env i = Some e"
  then have bad: "chunk_failure env (chunkCollection s) k chunks i = Some (e, [FindChunk k i])"
    by (simp add: chunk_failure_def)
  have notin: "i \<notin> set (uncached (chunkCollection s) k [0..<i])"
    by (simp add: uncached_def)
  from a have a1: "findOne_summaries_error env = None"
    and a2: "existing_summary (collection s k) = None"
    and a3: "fetchPdfText env (req_pdfUrl req) = Inr text"
    and a4: "splitIntoChunks text (default_maxWords f) = Some chunks"
    and a5: "i < length chunks"
    and a6: "\<forall>j < i. chunk_failure env (chunkCollection s) k chunks j = None"
    by blast+
  from fail_at_facts [OF assms(1,2) a1 a2 a3 a4 a5 a6 bad] notin
  show "fst (serve f env req s) = Ok ()"
    "errors_sent (final f env req s) = [error_reply f e]"
    "summaries_sent (final f env req s) = []"
    "summarizer_calls (trace (final f env req s)) = uncached (chunkCollection s) k [0..<i]"
    "i \<notin> set (summarizer_calls (trace (final f env req s)))"
    "collection (final f env req s) = collection s"
    by simp_all
qed (use lookup_throws_projections [OF assms] in simp_all)

theorem cache_read_failure_fails_request_witness:
  "accepted sample_request (JNum 7) \<and> connect_error unreadable_env = None \<and>
   findOne_summaries_error unreadable_env = Some (Error [0x21]) \<and>
   statusCode (res (final SummarizePdf_js unreadable_env sample_request empty_store)) = 500 \<and>
   errors_sent (final SummarizePdf_js unreadable_env sample_request empty_store) =
     [JsonError ''Failed to summarize PDF''] \<and>
   connect_error chunk_unreadable_env = None \<and>
   findOne_summaries_error chunk_unreadable_env = None \<and>
   existing_summary (collection empty_store (JNum 7)) = None \<and>
   fetchPdfText chunk_unreadable_env (req_pdfUrl sample_request) = Inr [] \<and>
   splitIntoChunks [] (default_maxWords SummarizePdf_js) = Some [[]] \<and>
   0 < length [[]::jsstring] \<and>
   findOne_chunk_error chunk_unreadable_env 0 = Some (Error [0x21]) \<and>
   errors_sent (final SummarizePdf_js chunk_unreadable_env sample_request empty_store) =
     [StreamError [0x21]] \<and>
   summarizer_calls (trace (final SummarizePdf_js chunk_unreadable_env sample_request empty_store)) = []"
proof -
  have u: "connect_error unreadable_env = None"
    "findOne_summaries_error unreadable_env = Some (Error [0x21])"
    by (simp_all add: unreadable_env_def sample_env_def service_def)
  have c: "connect_error chunk_unreadable_env = None"
    "findOne_summaries_error chunk_unreadable_env = None"
    "fetchPdfText chunk_unreadable_env (req_pdfUrl sample_request) = Inr []"
    "findOne_chunk_error chunk_unreadable_env 0 = Some (Error [0x21])"
    by (simp_all add: chunk_unreadable_env_def sample_env_def service_def)
  have sp: "splitIntoChunks [] (default_maxWords SummarizePdf_js) = Some [[]]"
    by (simp add: splitIntoChunks_empty)
  from cache_read_failure_fails_request [OF sample_accepted u(1),
      where e = "Error [0x21]" and f = SummarizePdf_js and s = empty_store]
    cache_read_failure_fails_request [OF sample_accepted c(1),
      where e = "Error [0x21]" and f = SummarizePdf_js and s = empty_store and chunks = "[[]]"
        and i = 0 and ?text = "[]"]
    sample_accepted u c sp empty_store_facts
  show ?thesis by (simp add: uncached_def)
qed

text \<open>
  Claim C8 as stated fails: with a Document Cache lookup that throws, the request that
  would otherwise be answered with the summary S is answered with status 500.
\<close>

theorem cache_read_failure_counterexample:
  "accepted sample_request (JNum 7) \<and>
   findOne_summaries_error unreadable_env = Some (Error [0x21]) \<and>
   fst (serve Part_002 unreadable_env sample_request empty_store) = Ok () \<and>
   statusCode (res (final Part_002 unreadable_env sample_request empty_store)) = 500 \<and>
   errors_sent (final Part_002 unreadable_env sample_request empty_store) =
     [JsonError ''Failed to summarize PDF''] \<and>
   summaries_sent (final Part_002 unreadable_env sample_request empty_store) = [] \<and>
   trace (final Part_002 unreadable_env sample_request empty_store) =
     [Connect, FindSummary (JNum 7), Write (JsonError ''Failed to summarize PDF'')] \<and>
   summaries_sent (final Part_002 sample_env sample_request empty_store) = [[0x53]]"
proof -
  have u: "connect_error unreadable_env = None"
    "findOne_summaries_error unreadable_env = Some (Error [0x21])"
    by (simp_all add: unreadable_env_def sample_env_def service_def)
  from lookup_throws_facts [OF sample_accepted u, where f = Part_002 and s = empty_store]
    lookup_throws_projections [OF sample_accepted u, where f = Part_002 and s = empty_store]
    sample_accepted u sample_first_call
  show ?thesis by (simp add: final_def)
qed

lemma split_blank_default:
  "whitespace_only text \<Longrightarrow> splitIntoChunks text (default_maxWords f) = Some [blank_chunk text]"
  by (cases f) (simp_all add: splitIntoChunks_whitespace_only blank_chunk_def)

text \<open>
  Claim C1, amended. For an empty or whitespace-only text and a positive \<open>maxWords\<close>,
  \<^verbatim>\<open>splitIntoChunks\<close> never returns the empty sequence: it returns one chunk holding the empty
  string for the empty text, and for a non-empty whitespace-only text two empty chunks when
  \<open>maxWords = 1\<close> and one chunk holding a single space otherwise. A handler given such a
  document on a cache miss does not skip the summarization: it invokes the Summarizer
  once, on that chunk, and answers with what the Summarizer returns; when the Summarizer
  throws, the request ends with the handler's error response.
\<close>

theorem whitespace_only_document:
  assumes "whitespace_only text" and "0 < maxWords"
  shows "splitIntoChunks text maxWords =
           Some (if text = [] then [[]] else if maxWords = 1 then [[], []] else [[0x20]]) \<and>
         splitIntoChunks text maxWords \<noteq> Some [] \<and>
         (accepted req k \<and> database_up env \<and> existing_summary (collection s k) = None \<and>
          fetchPdfText env (req_pdfUrl req) = Inr text \<and>
          cached_chunk (chunkCollection s (k, 0)) = None \<longrightarrow>
            (chat_completion env (blank_chunk text) 0 = Inr c \<longrightarrow>
               fst (serve f env req s) = Ok () \<and>
               summarizer_calls (trace (final f env req s)) = [0] \<and>
               summaries_sent (final f env req s) = [text_of c] \<and>
               errors_sent (final f env req s) = []) \<and>
            (chat_completion env (blank_chunk text) 0 = Inl e \<longrightarrow>
               fst (serve f env req s) = Ok () \<and>
               summarizer_calls (trace (final f env req s)) = [0] \<and>
               summaries_sent (final f env req s) = [] \<and>
               errors_sent (final f env req s) = [error_reply f e]))"
proof (intro conjI impI)
  show sp: "splitIntoChunks text maxWords =
           Some (if text = [] then [[]] else if maxWords = 1 then [[], []] else [[0x20]])"
    using assms by (rule splitIntoChunks_whitespace_only)
  then show "splitIntoChunks text maxWords \<noteq> Some []" by simp
next
  assume a: "accepted req k \<and> database_up env \<and> existing_summary (collection s k) = None \<and>
          fetchPdfText env (req_pdfUrl req) = Inr text \<and>
          cached_chunk (chunkCollection s (k, 0)) = None"
    and c: "chat_completion env (blank_chunk text) 0 = Inr c"
  from a have acc: "accepted req k" and up: "database_up env"
    and miss: "existing_summary (collection s k) = None"
    and fetch: "fetchPdfText env (req_pdfUrl req) = Inr text"
    and no: "cached_chunk (chunkCollection s (k, 0)) = None"
    by blast+
  have db: "connect_error env = None" "findOne_summaries_error env = None"
    "updateOne_summaries_error env = None"
    using up by (simp_all add: database_up_def)
  have ok: "\<forall>j < length [blank_chunk text]. chunk_failure env (chunkCollection s) k [blank_chunk text] j = None"
    using no c by (simp add: database_up_chunk_failure [OF up])
  from miss_ok_facts [OF acc db(1,2) miss fetch split_blank_default [OF assms(1)] ok db(3)] no c
  show "fst (serve f env req s) = Ok ()"
    "summarizer_calls (trace (final f env req s)) = [0]"
    "summaries_sent (final f env req s) = [text_of c]"
    "errors_sent (final f env req s) = []"
    by (simp_all add: uncached_def full_summary_def chunk_text_def)
next
  assume a: "accepted req k \<and> database_up env \<and> existing_summary (collection s k) = None \<and>
          fetchPdfText env (req_pdfUrl req) = Inr text \<and>
          cached_chunk (chunkCollection s (k, 0)) = None"
    and c: "chat_completion env (blank_chunk text) 0 = Inl e"
  from a have acc: "accepted req k" and up: "database_up env"
    and miss: "existing_summary (collection s k) = None"
    and fetch: "fetchPdfText env (req_pdfUrl req) = Inr text"
    and no: "cached_chunk (chunkCollection s (k, 0)) = None"
    by blast+
  have db: "connect_error env = None" "findOne_summaries_error env = None"
    using up by (simp_all add: database_up_def)
  have bad: "chunk_failure env (chunkCollection s) k [blank_chunk text] 0 =
               Some (e, [FindChunk k 0, Summarize 0 ([blank_chunk text] ! 0)])"
    using no c by (simp add: database_up_chunk_failure [OF up])
  have lt: "0 < length [blank_chunk text]" by simp
  have ok: "\<forall>j < 0. chunk_failure env (chunkCollection s) k [blank_chunk text] j = None" by simp
  from fail_at_facts [OF acc db miss fetch split_blank_default [OF assms(1)] lt ok bad]
  show "fst (serve f env req s) = Ok ()"
    "summarizer_calls (trace (final f env req s)) = [0]"
    "summaries_sent (final f env req s) = []"
    "errors_sent (final f env req s) = [error_reply f e]"
    by (simp_all add: uncached_def)
qed

theorem whitespace_only_document_witness:
  "whitespace_only [0x20, 0x0A] \<and> (0::nat) < 1 \<and>
   splitIntoChunks [0x20, 0x0A] 1 = Some [[], []] \<and>
   accepted sample_request (JNum 7) \<and> database_up (service (\<lambda>url. Inr [0x20, 0x0A]) (\<lambda>chunk i. Inr (Some [0x53]))) \<and>
   existing_summary (collection empty_store (JNum 7)) = None \<and>
   fetchPdfText (service (\<lambda>url. Inr [0x20, 0x0A]) (\<lambda>chunk i. Inr (Some [0x53]))) (req_pdfUrl sample_request) =
     Inr [0x20, 0x0A] \<and>
   cached_chunk (chunkCollection empty_store (JNum 7, 0)) = None \<and>
   chat_completion (service (\<lambda>url. Inr [0x20, 0x0A]) (\<lambda>chunk i. Inr (Some [0x53])))
     (blank_chunk [0x20, 0x0A]) 0 = Inr (Some [0x53]) \<and>
   summarizer_calls (trace (final SummarizePdf_js
     (service (\<lambda>url. Inr [0x20, 0x0A]) (\<lambda>chunk i. Inr (Some [0x53]))) sample_request empty_store)) = [0] \<and>
   summaries_sent (final SummarizePdf_js
     (service (\<lambda>url. Inr [0x20, 0x0A]) (\<lambda>chunk i. Inr (Some [0x53]))) sample_request empty_store) = [[0x53]]"
proof -
  let ?env = "service (\<lambda>url. Inr [0x20, 0x0A]) (\<lambda>chunk i. Inr (Some [0x53]))"
  have w: "whitespace_only [0x20, 0x0A]" by (simp add: whitespace_only_def is_ws_def)
  have e: "database_up ?env" "fetchPdfText ?env (req_pdfUrl sample_request) = Inr [0x20, 0x0A]"
    "chat_completion ?env (blank_chunk [0x20, 0x0A]) 0 = Inr (Some [0x53])"
    by (simp_all add: database_up_def service_def)
  from whitespace_only_document [OF w, of 1 sample_request "JNum 7" ?env empty_store "Some [0x53]" SummarizePdf_js]
    w e sample_accepted empty_store_facts
  show ?thesis by simp
qed

text \<open>
  Claim C1 as stated fails: the empty text gives one chunk, and the handler answers the
  empty document with the Summarizer's text S.
\<close>

theorem empty_text_counterexample:
  "whitespace_only [] \<and> splitIntoChunks [] 10000 = Some [[]] \<and> splitIntoChunks [] 10000 \<noteq> Some [] \<and>
   fetchPdfText sample_env (req_pdfUrl sample_request) = Inr [] \<and>
   summarizer_calls (trace (final Part_002 sample_env sample_request empty_store)) = [0] \<and>
   summaries_sent (final Part_002 sample_env sample_request empty_store) = [[0x53]]"
proof -
  have w: "whitespace_only []" by (simp add: whitespace_only_def)
  have e: "database_up sample_env" "fetchPdfText sample_env (req_pdfUrl sample_request) = Inr []"
    "chat_completion sample_env (blank_chunk []) 0 = Inr (Some [0x53])"
    by (simp_all add: database_up_def sample_env_def service_def)
  have ok: "\<forall>j < length [[]::jsstring]. chunk_failure sample_env (chunkCollection empty_store) (JNum 7) [[]] j = None"
    by (simp add: chunk_failure_def empty_store_facts sample_env_def service_def)
  from e(1) have db: "connect_error sample_env = None" "findOne_summaries_error sample_env = None"
    "updateOne_summaries_error sample_env = None"
    by (simp_all add: database_up_def)
  have sp: "splitIntoChunks [] (default_maxWords Part_002) = Some [[]]"
    by (simp add: splitIntoChunks_empty)
  from miss_ok_facts [OF sample_accepted db(1,2) empty_store_facts(1) e(2) sp ok db(3)]
  have "summarizer_calls (trace (final Part_002 sample_env sample_request empty_store)) = [0]"
    by (simp add: uncached_def empty_store_facts)
  with w e sample_first_call show ?thesis by (simp add: splitIntoChunks_empty)
qed

end
